theory Spec2Isabelle
  imports Main "HOL-Library.Char_ord" "HOL-Library.List_Lexorder" "HOL-Library.Multiset"
begin

section \<open>Python values used by the candle trader\<close>

text \<open>
  The exceptions the modelled code can raise. \<open>RequestError\<close> stands for every failure of
  the HTTP helper \<open>fetch_candles_chunk\<close> (network, HTTP status, KuCoin error envelope),
  \<open>PandasError\<close> for every failure inside the pandas calls that build and print a frame.
\<close>

datatype error =
    IndexError | KeyError | ValueError | OverflowError | TypeError | AttributeError
  | JSONDecodeError | RequestError | PandasError

text \<open>
  A candle is the list KuCoin sends:
  \<open>[timestamp, open, close, high, low, volume, turnover]\<close>, every field a string.
\<close>

type_synonym candle = "string list"

text \<open>
  The outcome of a method that mutates its object: either it returns (\<open>Ok\<close>) or an
  exception leaves it (\<open>Raised\<close>); in both cases the object is left in some state.
\<close>

datatype 's outcome = Ok 's | Raised error 's

fun outcome_state :: "'s outcome \<Rightarrow> 's" where
  "outcome_state (Ok s) = s"
| "outcome_state (Raised e s) = s"

fun raised :: "'s outcome \<Rightarrow> error option" where
  "raised (Ok s) = None"
| "raised (Raised e s) = Some e"

subsection \<open>\<open>int(str)\<close>\<close>

text \<open>
  Python's \<open>int(s)\<close> on a string, base 10: whitespace around the literal is skipped (tab,
  line feed, vertical tab, form feed, carriage return, space), one sign is allowed, then
  decimal digits, with single underscores allowed between digits.
  Anything else raises ValueError (\<open>None\<close> here). Strings are taken to be ASCII.
\<close>

definition is_space :: "char \<Rightarrow> bool" where
  "is_space c = (let n = (of_char c :: nat) in (9 \<le> n \<and> n \<le> 13) \<or> n = 32)"

definition is_digit :: "char \<Rightarrow> bool" where
  "is_digit c = (let n = (of_char c :: nat) in 48 \<le> n \<and> n \<le> 57)"

definition digit_val :: "char \<Rightarrow> int" where
  "digit_val c = int (of_char c) - 48"

fun parse_digits :: "int \<Rightarrow> string \<Rightarrow> int option" where
  "parse_digits acc [] = Some acc"
| "parse_digits acc (c # cs) =
     (if is_digit c then parse_digits (acc * 10 + digit_val c) cs
      else if c = CHR ''_'' then
        (case cs of
           [] \<Rightarrow> None
         | d # ds \<Rightarrow> if is_digit d then parse_digits (acc * 10 + digit_val d) ds else None)
      else None)"

definition parse_number :: "string \<Rightarrow> int option" where
  "parse_number s =
     (case s of
        [] \<Rightarrow> None
      | c # cs \<Rightarrow> if is_digit c then parse_digits (digit_val c) cs else None)"

definition strip :: "string \<Rightarrow> string" where
  "strip s = rev (dropWhile is_space (rev (dropWhile is_space s)))"

text \<open>
  The interpreter refuses a literal with more digits than \<open>sys.int_max_str_digits\<close>, 4300
  unless changed: every decimal digit of the literal counts, leading zeros too, the
  underscores, the sign and the whitespace do not.
\<close>

definition int_max_str_digits :: nat where
  "int_max_str_digits = 4300"

definition py_int :: "string \<Rightarrow> int option" where
  "py_int s =
     (case strip s of
        [] \<Rightarrow> None
      | c # cs \<Rightarrow>
          if length (filter is_digit (c # cs)) > int_max_str_digits then None
          else if c = CHR ''+'' then parse_number cs
          else if c = CHR ''-'' then map_option uminus (parse_number cs)
          else parse_number (c # cs))"

subsection \<open>Slices\<close>

text \<open>
  \<open>xs[i:]\<close>: a negative \<open>i\<close> counts from the end and is clamped at the front; note
  that \<open>xs[-0:]\<close> is \<open>xs[0:]\<close>, the whole list.
\<close>

definition py_slice_from :: "int \<Rightarrow> 'a list \<Rightarrow> 'a list" where
  "py_slice_from i xs =
     (if i < 0 then drop (nat (int (length xs) + i)) xs else drop (nat i) xs)"

section \<open>The live updaters\<close>

text \<open>
  What \<open>ws.get_data\<close> hands over: the \<open>data\<close> dictionary of a KuCoin message, with the
  \<open>time_received\<close> entry the message handler adds. \<open>candles = None\<close> means the key is
  missing. Because of \<open>time_received\<close> the dictionary is never empty, so \<open>if data:\<close>
  is the test against \<open>None\<close> (a timeout of the queue).
\<close>

record event =
  candles :: "candle option"
  time_received :: string

text \<open>The fields both updater classes share; the price fields start as \<open>None\<close>.\<close>

record updater =
  candle_list :: "candle list"
  "open" :: "string option"
  close :: "string option"
  high :: "string option"
  low :: "string option"

text \<open>\<open>CandleUpdate\<close> of \<open>live_data_update.py\<close>.\<close>

record candle_update = updater +
  timeframe :: string
  bars_lookback :: int
  timestamp :: "string option"
  volume :: "string option"
  turnover :: "string option"

text \<open>\<open>LiveDataUpdater\<close> of the package.\<close>

record live_data_updater = updater +
  max_candles :: int

text \<open>
  A run of assignments \<open>self.f = candle[i]\<close>: each index is read in turn, and the first
  one out of range raises IndexError with the earlier assignments already made.
\<close>

fun assign_fields ::
  "(nat \<times> (string option \<Rightarrow> 's \<Rightarrow> 's)) list \<Rightarrow> candle \<Rightarrow> 's \<Rightarrow> error option \<times> 's" where
  "assign_fields [] candle s = (None, s)"
| "assign_fields ((i, upd) # rest) candle s =
     (if i < length candle then assign_fields rest candle (upd (Some (candle ! i)) s)
      else (Some IndexError, s))"

text \<open>
  The pandas work of each branch (building the frame, converting the timestamps,
  printing) is a parameter \<open>print_df\<close>: it gets the rows and may raise.
\<close>

type_synonym printer = "candle list \<Rightarrow> error option"

subsection \<open>\<open>LiveDataUpdater\<close>\<close>

definition add_new_candle ::
  "printer \<Rightarrow> candle \<Rightarrow> live_data_updater \<Rightarrow> live_data_updater outcome" where
  "add_new_candle print_df candle s =
     (let s1 = s\<lparr>candle_list := candle_list s @ [candle]\<rparr>;
          s2 = (if int (length (candle_list s1)) > max_candles s1
                then s1\<lparr>candle_list := py_slice_from (- max_candles s1) (candle_list s1)\<rparr>
                else s1)
      in case print_df (py_slice_from (- 100) (candle_list s2)) of
           Some e \<Rightarrow> Raised e s2
         | None \<Rightarrow> Ok s2)"

definition update_last_candle ::
  "printer \<Rightarrow> candle \<Rightarrow> live_data_updater \<Rightarrow> live_data_updater outcome" where
  "update_last_candle print_df candle s =
     (if candle_list s = [] then Raised IndexError s
      else
        let s1 = s\<lparr>candle_list := (candle_list s)[length (candle_list s) - 1 := candle]\<rparr>
        in case print_df [last (candle_list s1)] of
             Some e \<Rightarrow> Raised e s1
           | None \<Rightarrow> Ok s1)"

definition process_data ::
  "printer \<Rightarrow> event option \<Rightarrow> live_data_updater \<Rightarrow> live_data_updater outcome" where
  "process_data print_df data s =
     (case data of
        None \<Rightarrow> Ok s
      | Some d \<Rightarrow>
          (case candles d of
             None \<Rightarrow> Raised KeyError s
           | Some candle \<Rightarrow>
               (case assign_fields
                       [(1, \<lambda>v u. u\<lparr>open := v\<rparr>), (2, \<lambda>v u. u\<lparr>close := v\<rparr>),
                        (3, \<lambda>v u. u\<lparr>high := v\<rparr>), (4, \<lambda>v u. u\<lparr>low := v\<rparr>)] candle s of
                  (Some e, s1) \<Rightarrow> Raised e s1
                | (None, s1) \<Rightarrow>
                    if candle_list s1 = [] then add_new_candle print_df candle s1
                    else
                      (case last (candle_list s1) of
                         [] \<Rightarrow> Raised IndexError s1
                       | t # _ \<Rightarrow>
                           if candle ! 0 \<noteq> t then add_new_candle print_df candle s1
                           else update_last_candle print_df candle s1))))"

text \<open>
  The loop of \<open>LiveDataUpdater.start\<close> over the successive results of \<open>get_data\<close>; an
  exception of \<open>process_data\<close> is not caught and ends it.
\<close>

fun process_all ::
  "printer \<Rightarrow> event option list \<Rightarrow> live_data_updater \<Rightarrow> live_data_updater outcome" where
  "process_all print_df [] s = Ok s"
| "process_all print_df (d # ds) s =
     (case process_data print_df d s of
        Ok s1 \<Rightarrow> process_all print_df ds s1
      | Raised e s1 \<Rightarrow> Raised e s1)"

subsection \<open>\<open>CandleUpdate\<close>\<close>

definition process_candle_data ::
  "event option \<Rightarrow> 'a candle_update_scheme \<Rightarrow>
     (error + candle option) \<times> 'a candle_update_scheme" where
  "process_candle_data data s =
     (case data of
        None \<Rightarrow> (Inr None, s)
      | Some d \<Rightarrow>
          (case candles d of
             None \<Rightarrow> (Inl KeyError, s)
           | Some candle \<Rightarrow>
               (case assign_fields
                       [(0, \<lambda>v u. u\<lparr>timestamp := v\<rparr>), (1, \<lambda>v u. u\<lparr>open := v\<rparr>),
                        (2, \<lambda>v u. u\<lparr>close := v\<rparr>), (3, \<lambda>v u. u\<lparr>high := v\<rparr>),
                        (4, \<lambda>v u. u\<lparr>low := v\<rparr>), (5, \<lambda>v u. u\<lparr>volume := v\<rparr>),
                        (6, \<lambda>v u. u\<lparr>turnover := v\<rparr>)] candle s of
                  (Some e, s1) \<Rightarrow> (Inl e, s1)
                | (None, s1) \<Rightarrow> (Inr (Some candle), s1))))"

text \<open>One pass through the body of the \<open>while True\<close> of \<open>CandleUpdate.start\<close>.\<close>

definition start_step ::
  "printer \<Rightarrow> event option \<Rightarrow> candle_update \<Rightarrow> candle_update outcome" where
  "start_step print_df data s =
     (case process_candle_data data s of
        (Inl e, s1) \<Rightarrow> Raised e s1
      | (Inr None, s1) \<Rightarrow> Ok s1
      | (Inr (Some candle), s1) \<Rightarrow>
          if candle = [] then Ok s1
          else if candle_list s1 = [] then Raised IndexError s1
          else
            (case last (candle_list s1) of
               [] \<Rightarrow> Raised IndexError s1
             | t # _ \<Rightarrow>
                 if candle ! 0 \<noteq> t then
                   (let s2 = s1\<lparr>candle_list := candle_list s1 @ [candle]\<rparr>;
                        s3 = (if length (candle_list s2) > 500
                              then s2\<lparr>candle_list := py_slice_from (- 500) (candle_list s2)\<rparr>
                              else s2)
                    in case print_df (py_slice_from (- 100) (candle_list s3)) of
                         Some e \<Rightarrow> Raised e s3
                       | None \<Rightarrow> Ok s3)
                 else
                   (let s2 = s1\<lparr>candle_list :=
                                  (candle_list s1)[length (candle_list s1) - 1 := candle]\<rparr>
                    in case print_df [last (candle_list s2)] of
                         Some e \<Rightarrow> Raised e s2
                       | None \<Rightarrow> Ok s2)))"

text \<open>
  \<open>CandleUpdate.start\<close>: \<open>ws_start\<close> is the result of \<open>self.ws.start()\<close>, the list holds
  the successive results of \<open>get_data\<close>. Any exception is caught by the handler around
  the loop, which prints it and lets \<open>start\<close> return: the loop is over.
\<close>

fun start_loop ::
  "printer \<Rightarrow> event option list \<Rightarrow> candle_update \<Rightarrow> candle_update outcome" where
  "start_loop print_df [] s = Ok s"
| "start_loop print_df (d # ds) s =
     (case start_step print_df d s of
        Ok s1 \<Rightarrow> start_loop print_df ds s1
      | Raised e s1 \<Rightarrow> Raised e s1)"

definition start ::
  "printer \<Rightarrow> error option \<Rightarrow> event option list \<Rightarrow> candle_update \<Rightarrow> candle_update outcome" where
  "start print_df ws_start ds s =
     (case ws_start of
        Some e \<Rightarrow> Raised e s
      | None \<Rightarrow> start_loop print_df ds s)"

subsection \<open>\<open>CandleUpdate\<close> of \<open>development/live_data_update_org.py\<close>\<close>



section \<open>The historical fetch\<close>

text \<open>
  \<open>fetch_all_candles\<close> is the same in \<open>SpotDataFetcher\<close> and \<open>KuCoinDataFetcher\<close>. The
  network is a list of responses: the results of the successive calls of
  \<open>fetch_candles_chunk\<close>, each a chunk or an exception. \<open>start_ts\<close> and \<open>end_ts\<close> are
  the epoch seconds \<open>time.mktime(time.strptime(...))\<close> gives for the configured start
  and end strings, which are taken to be well formed.

  The loop has no bound of its own: when the responses run out before it has left, the
  result is \<open>None\<close>.
\<close>

type_synonym response = "error + candle list"

fun fetch_loop :: "int \<Rightarrow> response list \<Rightarrow> candle list \<Rightarrow> (error + candle list) option" where
  "fetch_loop start_ts [] chunks = None"
| "fetch_loop start_ts (r # rs) chunks =
     (case r of
        Inl e \<Rightarrow> Some (Inl e)
      | Inr chunk \<Rightarrow>
          if chunk = [] then Some (Inr chunks)
          else
            (case last chunk of
               [] \<Rightarrow> Some (Inl IndexError)
             | t # _ \<Rightarrow>
                 (case py_int t of
                    None \<Rightarrow> Some (Inl ValueError)
                  | Some earliest_ts \<Rightarrow>
                      if earliest_ts \<le> start_ts then Some (Inr (chunks @ chunk))
                      else fetch_loop start_ts rs (chunks @ chunk))))"

text \<open>
  After the loop: \<open>chunks.sort(key=lambda x: x[0])\<close> compares the timestamp strings
  (a stable sort), then the comprehension keeps the rows whose \<open>int(c[0])\<close> is in range.
\<close>

definition in_range :: "int \<Rightarrow> int \<Rightarrow> candle \<Rightarrow> bool" where
  "in_range start_ts end_ts c =
     (case py_int (c ! 0) of None \<Rightarrow> False | Some t \<Rightarrow> start_ts \<le> t \<and> t \<le> end_ts)"

definition sort_and_filter :: "int \<Rightarrow> int \<Rightarrow> candle list \<Rightarrow> error + candle list" where
  "sort_and_filter start_ts end_ts chunks =
     (if chunks = [] then Inr []
      else if [] \<in> set chunks then Inl IndexError
      else
        let sorted_chunks = sort_key (\<lambda>x. x ! 0) chunks
        in if list_ex (\<lambda>c. py_int (c ! 0) = None) sorted_chunks then Inl ValueError
           else Inr (filter (in_range start_ts end_ts) sorted_chunks))"

definition fetch_all_candles ::
  "int \<Rightarrow> int \<Rightarrow> response list \<Rightarrow> (error + candle list) option" where
  "fetch_all_candles start_ts end_ts responses =
     (case fetch_loop start_ts responses [] of
        None \<Rightarrow> None
      | Some (Inl e) \<Rightarrow> Some (Inl e)
      | Some (Inr chunks) \<Rightarrow> Some (sort_and_filter start_ts end_ts chunks))"

section \<open>Construction of \<open>CandleUpdate\<close>\<close>

text \<open>
  Times are counted in microseconds. A \<open>timedelta\<close> must have at most 999999999 days in
  magnitude, a \<open>datetime\<close> must lie in the years 1 to 9999 (it is counted from the
  start of year 1, and 9999-12-31 is day 3652059); outside, Python raises OverflowError.
\<close>

definition us_per_day :: int where
  "us_per_day = 86400000000"

definition timedelta :: "int \<Rightarrow> error + int" where
  "timedelta us = (if \<bar>us div us_per_day\<bar> > 999999999 then Inl OverflowError else Inr us)"

definition datetime_sub :: "int \<Rightarrow> int \<Rightarrow> error + int" where
  "datetime_sub t delta =
     (let r = t - delta
      in if 0 \<le> r \<and> r < 3652059 * us_per_day then Inr r else Inl OverflowError)"

definition endswith :: "string \<Rightarrow> string \<Rightarrow> bool" where
  "endswith s suffix =
     (length suffix \<le> length s \<and> drop (length s - length suffix) s = suffix)"

text \<open>\<open>s[:-n]\<close> for a positive \<open>n\<close>.\<close>

definition py_drop_last :: "nat \<Rightarrow> string \<Rightarrow> string" where
  "py_drop_last n s = take (length s - n) s"

definition timeframe_delta :: "string \<Rightarrow> error + int" where
  "timeframe_delta tf =
     (if endswith tf ''min'' then
        (case py_int (py_drop_last 3 tf) of
           None \<Rightarrow> Inl ValueError
         | Some n \<Rightarrow> timedelta (n * 60000000))
      else if endswith tf ''hour'' then
        (case py_int (py_drop_last 4 tf) of
           None \<Rightarrow> Inl ValueError
         | Some n \<Rightarrow> timedelta (n * 3600000000))
      else if endswith tf ''day'' then
        (case py_int (py_drop_last 3 tf) of
           None \<Rightarrow> Inl ValueError
         | Some n \<Rightarrow> timedelta (n * us_per_day))
      else Inl ValueError)"

text \<open>\<open>now\<close> is the value of \<open>datetime.now(timezone.utc)\<close>.\<close>

definition calculate_start_time_with_bars :: "string \<Rightarrow> int \<Rightarrow> int \<Rightarrow> error + int" where
  "calculate_start_time_with_bars tf lookback now =
     (case timeframe_delta tf of
        Inl e \<Rightarrow> Inl e
      | Inr delta \<Rightarrow>
          (case timedelta (lookback * delta) of
             Inl e \<Rightarrow> Inl e
           | Inr d \<Rightarrow> datetime_sub now d))"

text \<open>
  \<open>CandleUpdate.__init__\<close>. \<open>now\<close> and \<open>now_end\<close> are the two readings of the clock,
  \<open>epoch\<close> is the way from a \<open>datetime\<close> through its formatted string to the epoch
  seconds the fetcher computes from it, \<open>responses\<close> is the network as above. The start
  time is computed first; the fetch is the last step.
\<close>

definition candle_update_init ::
  "string \<Rightarrow> int \<Rightarrow> int \<Rightarrow> int \<Rightarrow> (int \<Rightarrow> int) \<Rightarrow> response list \<Rightarrow>
     (error + candle_update) option" where
  "candle_update_init tf lookback now now_end epoch responses =
     (case calculate_start_time_with_bars tf lookback now of
        Inl e \<Rightarrow> Some (Inl e)
      | Inr start_time \<Rightarrow>
          (case fetch_all_candles (epoch start_time) (epoch now_end) responses of
             None \<Rightarrow> None
           | Some (Inl e) \<Rightarrow> Some (Inl e)
           | Some (Inr cl) \<Rightarrow>
               Some (Inr \<lparr>candle_list = cl, open = None, close = None,
                          high = None, low = None, timeframe = tf, bars_lookback = lookback,
                          timestamp = None, volume = None, turnover = None\<rparr>)))"

section \<open>The WebSocket message handler\<close>

text \<open>
  A parsed JSON value; a number keeps its text, and the keys of an object are distinct, as
  \<open>json.loads\<close> leaves them. \<open>json_loads\<close> is a parameter of the handlers: it returns
  the value or the exception \<open>json.loads\<close> raised.
\<close>

datatype json =
    JNull | JBool bool | JNum string | JStr string | JArr "json list"
  | JObj "(string \<times> json) list"

text \<open>\<open>d[k] = v\<close> on a dictionary: an existing key keeps its place.\<close>

fun dict_set :: "string \<Rightarrow> json \<Rightarrow> (string \<times> json) list \<Rightarrow> (string \<times> json) list" where
  "dict_set k v [] = [(k, v)]"
| "dict_set k v ((k', v') # kvs) =
     (if k' = k then (k, v) # kvs else (k', v') # dict_set k v kvs)"

record 't connection_metrics =
  message_count :: int
  error_count :: int
  connected_at :: 't
  last_message_at :: 't

record 't websocket =
  data_queue :: "json list"
  metrics :: "'t connection_metrics"

text \<open>
  \<open>Queue.put_nowait\<close> on a queue of the given \<open>maxsize\<close>: \<open>None\<close> is \<open>queue.Full\<close>.
\<close>

definition put_nowait :: "int \<Rightarrow> json \<Rightarrow> json list \<Rightarrow> json list option" where
  "put_nowait maxsize item q =
     (if 0 < maxsize \<and> maxsize \<le> int (length q) then None else Some (q @ [item]))"

text \<open>
  \<open>KucoinCandlestickWebSocket._on_message\<close> of the package (queue of 1000). \<open>now\<close> is
  \<open>time.time()\<close>, \<open>stamp\<close> is \<open>datetime.now().isoformat()\<close>. The handler catches every
  exception, so it always returns.
\<close>

definition on_message ::
  "(string \<Rightarrow> error + json) \<Rightarrow> 't \<Rightarrow> string \<Rightarrow> string \<Rightarrow> 't websocket \<Rightarrow> 't websocket" where
  "on_message json_loads now stamp message s =
     (case json_loads message of
        Inl e \<Rightarrow>
          if e = JSONDecodeError then s
          else s\<lparr>metrics := (metrics s)\<lparr>error_count := error_count (metrics s) + 1\<rparr>\<rparr>
      | Inr (JObj kvs) \<Rightarrow>
          if map_of kvs ''type'' = Some (JStr ''message'') \<and> map_of kvs ''data'' \<noteq> None then
            (let s1 = s\<lparr>metrics := (metrics s)\<lparr>message_count := message_count (metrics s) + 1,
                                               last_message_at := now\<rparr>\<rparr>
             in case map_of kvs ''data'' of
                  Some (JObj candlestick_data) \<Rightarrow>
                    (case put_nowait 1000
                            (JObj (dict_set ''time_received'' (JStr stamp) candlestick_data))
                            (data_queue s1) of
                       None \<Rightarrow> s1
                     | Some q \<Rightarrow> s1\<lparr>data_queue := q\<rparr>)
                | _ \<Rightarrow> s1\<lparr>metrics := (metrics s1)\<lparr>error_count := error_count (metrics s1) + 1\<rparr>\<rparr>)
          else s
      | Inr _ \<Rightarrow> s\<lparr>metrics := (metrics s)\<lparr>error_count := error_count (metrics s) + 1\<rparr>\<rparr>)"

text \<open>
  \<open>KucoinCandlestickWebSocket.on_message\<close> of \<open>development/ws_simple_update.py\<close> (queue of
  100): one handler for every exception.
\<close>

definition simple_on_message ::
  "(string \<Rightarrow> error + json) \<Rightarrow> string \<Rightarrow> string \<Rightarrow> 't websocket \<Rightarrow> 't websocket" where
  "simple_on_message json_loads stamp message s =
     (case json_loads message of
        Inl e \<Rightarrow> s\<lparr>metrics := (metrics s)\<lparr>error_count := error_count (metrics s) + 1\<rparr>\<rparr>
      | Inr (JObj kvs) \<Rightarrow>
          if map_of kvs ''type'' = Some (JStr ''message'') \<and> map_of kvs ''data'' \<noteq> None then
            (let s1 = s\<lparr>metrics := (metrics s)\<lparr>message_count := message_count (metrics s) + 1\<rparr>\<rparr>
             in case map_of kvs ''data'' of
                  Some (JObj candlestick_data) \<Rightarrow>
                    (case put_nowait 100
                            (JObj (dict_set ''time_received'' (JStr stamp) candlestick_data))
                            (data_queue s1) of
                       None \<Rightarrow> s1
                     | Some q \<Rightarrow> s1\<lparr>data_queue := q\<rparr>)
                | _ \<Rightarrow> s1\<lparr>metrics := (metrics s1)\<lparr>error_count := error_count (metrics s1) + 1\<rparr>\<rparr>)
          else s
      | Inr _ \<Rightarrow> s\<lparr>metrics := (metrics s)\<lparr>error_count := error_count (metrics s) + 1\<rparr>\<rparr>)"

section \<open>Order of a series\<close>

text \<open>
  The openTime of a bar is \<open>int(c[0])\<close>. A series is strictly increasing when every bar
  has an openTime and each is less than the next.
\<close>

definition open_time :: "candle \<Rightarrow> int option" where
  "open_time c = (case c of [] \<Rightarrow> None | t # _ \<Rightarrow> py_int t)"

definition strictly_increasing :: "candle list \<Rightarrow> bool" where
  "strictly_increasing cl =
     (list_all (\<lambda>c. open_time c \<noteq> None) cl \<and> sorted_wrt (<) (map (\<lambda>c. the (open_time c)) cl))"

definition tail_timestamp :: "candle list \<Rightarrow> string option" where
  "tail_timestamp cl =
     (if cl = [] then None else (case last cl of [] \<Rightarrow> None | t # _ \<Rightarrow> Some t))"

text \<open>
  A feed in order: every event is a timeout or carries a seven-field candle whose timestamp
  is the one of the bar before it (the tail of the series, then the previous event) or has
  a strictly greater openTime.
\<close>

fun ascending_feed :: "string option \<Rightarrow> event option list \<Rightarrow> bool" where
  "ascending_feed t [] = True"
| "ascending_feed t (None # ds) = ascending_feed t ds"
| "ascending_feed t (Some d # ds) =
     (case candles d of
        None \<Rightarrow> False
      | Some c \<Rightarrow>
          length c = 7 \<and> py_int (c ! 0) \<noteq> None
          \<and> (case t of
               None \<Rightarrow> True
             | Some u \<Rightarrow>
                 c ! 0 = u
                 \<or> (case (py_int u, py_int (c ! 0)) of
                       (Some a, Some b) \<Rightarrow> a < b
                     | _ \<Rightarrow> False))
          \<and> ascending_feed (Some (c ! 0)) ds)"

section \<open>Rows received\<close>

text \<open>The rows a response delivers (none when the call failed).\<close>

definition rows_of :: "response \<Rightarrow> candle list" where
  "rows_of r = (case r of Inl e \<Rightarrow> [] | Inr chunk \<Rightarrow> chunk)"

text \<open>
  The loop goes on after a response that is a non-empty chunk whose last row is later than
  the start. The responses it has read when it leaves are those after which it went on and
  the one after which it stopped.
\<close>

definition goes_on :: "int \<Rightarrow> response \<Rightarrow> bool" where
  "goes_on start_ts r =
     (case r of
        Inl e \<Rightarrow> False
      | Inr chunk \<Rightarrow>
          chunk \<noteq> []
          \<and> (case last chunk of
                [] \<Rightarrow> False
              | t # _ \<Rightarrow>
                  (case py_int t of None \<Rightarrow> False | Some earliest_ts \<Rightarrow> start_ts < earliest_ts)))"

definition consumed :: "int \<Rightarrow> response list \<Rightarrow> response list" where
  "consumed start_ts responses =
     takeWhile (goes_on start_ts) responses @ take 1 (dropWhile (goes_on start_ts) responses)"

section \<open>Example values\<close>

text \<open>A well-formed candle with the given timestamp, and updaters holding a given series.\<close>

definition bar :: "string \<Rightarrow> candle" where
  "bar t = [t, ''1'', ''2'', ''3'', ''0'', ''10'', ''20'']"

definition live_updater :: "int \<Rightarrow> candle list \<Rightarrow> live_data_updater" where
  "live_updater n cl =
     \<lparr>candle_list = cl, open = None, close = None, high = None, low = None,
      max_candles = n\<rparr>"

definition candle_updater :: "int \<Rightarrow> candle list \<Rightarrow> candle_update" where
  "candle_updater n cl =
     \<lparr>candle_list = cl, open = None, close = None, high = None, low = None,
      timeframe = ''1min'', bars_lookback = n, timestamp = None, volume = None, turnover = None\<rparr>"

definition tick :: "string \<Rightarrow> event option" where
  "tick t = Some \<lparr>candles = Some (bar t), time_received = ''2025-01-07T00:00:00''\<rparr>"


text \<open>
  A parser that knows two messages: a candle message of the stream and a text that is not
  JSON. A handler state with a queue of the given length.
\<close>

definition candle_message :: json where
  "candle_message =
     JObj [(''type'', JStr ''message''), (''topic'', JStr ''/market/candles:BTC-USDT_1min''),
           (''subject'', JStr ''trade.candles.update''),
           (''data'', JObj [(''symbol'', JStr ''BTC-USDT''),
                            (''candles'', JArr (map JStr (bar ''103''))),
                            (''time'', JNum ''1736208000000'')])]"

definition example_loads :: "string \<Rightarrow> error + json" where
  "example_loads message =
     (if message = ''candle'' then Inr candle_message else Inl JSONDecodeError)"

definition socket :: "nat \<Rightarrow> nat websocket" where
  "socket n =
     \<lparr>data_queue = replicate n JNull,
      metrics = \<lparr>message_count = 0, error_count = 0, connected_at = 0, last_message_at = 0\<rparr>\<rparr>"

text \<open>Two chunks that overlap at the bar 160, which they report with different values.\<close>

definition overlap :: "response list" where
  "overlap =
     [Inr [bar ''220'', bar ''160''],
      Inr [[''160'', ''9'', ''9'', ''9'', ''9'', ''9'', ''9''], bar ''100'']]"

text \<open>
  A clock reading (2025-01-07 00:00 UTC, in microseconds from the start of year 1) and the
  conversion of such a reading to epoch seconds in UTC.
\<close>

definition example_now :: int where
  "example_now = 63871804800000000"

definition utc_epoch :: "int \<Rightarrow> int" where
  "utc_epoch t = t div 1000000 - 62135596800"

section \<open>Facts about the updaters\<close>

lemmas py_int_eval =
  py_int_def int_max_str_digits_def strip_def is_space_def is_digit_def digit_val_def parse_number_def

lemmas example_defs = bar_def live_updater_def candle_updater_def tick_def

lemma assign_fields_preserves:
  "(\<forall>p \<in> set fs. \<forall>v u. g (snd p v u) = g u) \<Longrightarrow> g (snd (assign_fields fs candle s)) = g s"
  by (induction fs candle s rule: assign_fields.induct) simp_all

lemma live_fields:
  "5 \<le> length candle \<Longrightarrow>
   assign_fields
     [(1, \<lambda>v u. u\<lparr>open := v\<rparr>), (2, \<lambda>v u. u\<lparr>close := v\<rparr>),
      (3, \<lambda>v u. u\<lparr>high := v\<rparr>), (4, \<lambda>v u. u\<lparr>low := v\<rparr>)] candle (s :: live_data_updater)
   = (None, s\<lparr>open := Some (candle ! 1), close := Some (candle ! 2),
              high := Some (candle ! 3), low := Some (candle ! 4)\<rparr>)"
  by simp

lemma candle_fields:
  "7 \<le> length candle \<Longrightarrow>
   assign_fields
     [(0, \<lambda>v u. u\<lparr>timestamp := v\<rparr>), (1, \<lambda>v u. u\<lparr>open := v\<rparr>),
      (2, \<lambda>v u. u\<lparr>close := v\<rparr>), (3, \<lambda>v u. u\<lparr>high := v\<rparr>),
      (4, \<lambda>v u. u\<lparr>low := v\<rparr>), (5, \<lambda>v u. u\<lparr>volume := v\<rparr>),
      (6, \<lambda>v u. u\<lparr>turnover := v\<rparr>)] candle (s :: 'a candle_update_scheme)
   = (None, s\<lparr>timestamp := Some (candle ! 0), open := Some (candle ! 1),
              close := Some (candle ! 2), high := Some (candle ! 3),
              low := Some (candle ! 4), volume := Some (candle ! 5),
              turnover := Some (candle ! 6)\<rparr>)"
  by auto

lemma candle_list_add_new_candle:
  "candle_list (outcome_state (add_new_candle print_df candle s)) =
     (let xs = candle_list s @ [candle]
      in if max_candles s < int (length xs) then py_slice_from (- max_candles s) xs else xs)"
  by (simp add: add_new_candle_def Let_def split: option.splits)

lemma process_data_differs:
  assumes "candles d = Some candle" "5 \<le> length candle"
    "candle_list s \<noteq> []" "last (candle_list s) \<noteq> []"
    "candle ! 0 \<noteq> last (candle_list s) ! 0"
  shows "process_data print_df (Some d) s =
     add_new_candle print_df candle
       (s\<lparr>open := Some (candle ! 1), close := Some (candle ! 2),
              high := Some (candle ! 3), low := Some (candle ! 4)\<rparr>)"
  using assms by (cases "last (candle_list s)") (simp_all add: process_data_def live_fields)

lemma start_step_differs:
  assumes "candles d = Some candle" "7 \<le> length candle"
    "candle_list s \<noteq> []" "last (candle_list s) \<noteq> []"
    "candle ! 0 \<noteq> last (candle_list s) ! 0"
  shows "candle_list (outcome_state (start_step print_df (Some d) s)) =
     (let xs = candle_list s @ [candle]
      in if 500 < length xs then py_slice_from (- 500) xs else xs)"
proof -
  from assms(2) have ne: "candle \<noteq> []" by auto
  show ?thesis
    using assms ne
    by (cases "last (candle_list s)")
       (simp_all add: start_step_def process_candle_data_def candle_fields Let_def
          split: option.splits)
qed

lemma process_candle_data_candle_list:
  "candle_list (snd (process_candle_data data s)) = candle_list s"
proof -
  have "candle_list (snd (assign_fields
          [(0, \<lambda>v u. u\<lparr>timestamp := v\<rparr>), (1, \<lambda>v u. u\<lparr>open := v\<rparr>),
           (2, \<lambda>v u. u\<lparr>close := v\<rparr>), (3, \<lambda>v u. u\<lparr>high := v\<rparr>),
           (4, \<lambda>v u. u\<lparr>low := v\<rparr>), (5, \<lambda>v u. u\<lparr>volume := v\<rparr>),
           (6, \<lambda>v u. u\<lparr>turnover := v\<rparr>)] c s)) = candle_list s" for c
    by (rule assign_fields_preserves) simp
  then show ?thesis
    by (auto simp: process_candle_data_def split: option.splits prod.splits)
qed

lemma start_step_empty:
  assumes "candle_list u = []"
  shows "candle_list (outcome_state (start_step print_df data u)) = []"
proof -
  obtain r u1 where p: "process_candle_data data u = (r, u1)"
    by (cases "process_candle_data data u")
  with process_candle_data_candle_list [of data u] assms have "candle_list u1 = []"
    by simp
  with p show ?thesis
    by (auto simp: start_step_def split: sum.splits option.splits)
qed

lemma start_loop_empty:
  "candle_list u = [] \<Longrightarrow> candle_list (outcome_state (start_loop print_df ds u)) = []"
proof (induction ds arbitrary: u)
  case Nil
  then show ?case by simp
next
  case (Cons d ds)
  from Cons.prems have e: "candle_list (outcome_state (start_step print_df d u)) = []"
    by (rule start_step_empty)
  show ?case
  proof (cases "start_step print_df d u")
    case (Ok u1)
    with e have "candle_list u1 = []" by simp
    with Cons.IH Ok show ?thesis by simp
  next
    case (Raised err u1)
    with e show ?thesis by simp
  qed
qed

lemma live_assign_candle_list:
  "candle_list (snd (assign_fields
      [(1, \<lambda>v u. u\<lparr>open := v\<rparr>), (2, \<lambda>v u. u\<lparr>close := v\<rparr>),
       (3, \<lambda>v u. u\<lparr>high := v\<rparr>), (4, \<lambda>v u. u\<lparr>low := v\<rparr>)] c (s :: live_data_updater)))
   = candle_list s"
  by (rule assign_fields_preserves) simp

lemma live_assign_max_candles:
  "max_candles (snd (assign_fields
      [(1, \<lambda>v u. u\<lparr>open := v\<rparr>), (2, \<lambda>v u. u\<lparr>close := v\<rparr>),
       (3, \<lambda>v u. u\<lparr>high := v\<rparr>), (4, \<lambda>v u. u\<lparr>low := v\<rparr>)] c (s :: live_data_updater)))
   = max_candles s"
  by (rule assign_fields_preserves) simp

lemma add_new_candle_max_candles:
  "max_candles (outcome_state (add_new_candle print_df candle s)) = max_candles s"
  by (simp add: add_new_candle_def Let_def split: option.splits)

lemma update_last_candle_state:
  "candle_list (outcome_state (update_last_candle print_df candle s)) =
     (candle_list s)[length (candle_list s) - 1 := candle]
   \<and> max_candles (outcome_state (update_last_candle print_df candle s)) = max_candles s"
  by (simp add: update_last_candle_def Let_def split: option.splits)

text \<open>What one call of \<open>process_data\<close> can do to the series.\<close>

lemma process_data_shape:
  "max_candles (outcome_state (process_data print_df data s)) = max_candles s
   \<and> (candle_list (outcome_state (process_data print_df data s)) = candle_list s
      \<or> (\<exists>c. candle_list (outcome_state (process_data print_df data s)) =
            (let xs = candle_list s @ [c]
             in if max_candles s < int (length xs) then py_slice_from (- max_candles s) xs
                else xs))
      \<or> (\<exists>c. candle_list (outcome_state (process_data print_df data s)) =
            (candle_list s)[length (candle_list s) - 1 := c]))"
proof (cases data)
  case None
  then show ?thesis by (simp add: process_data_def)
next
  case (Some d)
  show ?thesis
  proof (cases "candles d")
    case None
    with Some show ?thesis by (simp add: process_data_def)
  next
    case c: (Some c)
    obtain e s1 where a: "assign_fields
      [(1, \<lambda>v u. u\<lparr>open := v\<rparr>), (2, \<lambda>v u. u\<lparr>close := v\<rparr>),
       (3, \<lambda>v u. u\<lparr>high := v\<rparr>), (4, \<lambda>v u. u\<lparr>low := v\<rparr>)] c s = (e, s1)"
      by (cases "assign_fields
      [(1, \<lambda>v u. u\<lparr>open := v\<rparr>), (2, \<lambda>v u. u\<lparr>close := v\<rparr>),
       (3, \<lambda>v u. u\<lparr>high := v\<rparr>), (4, \<lambda>v u. u\<lparr>low := v\<rparr>)] c s")
    from a live_assign_candle_list [of c s] have cl: "candle_list s1 = candle_list s"
      by simp
    from a live_assign_max_candles [of c s] have mc: "max_candles s1 = max_candles s"
      by simp
    have p: "process_data print_df data s =
       (case e of
          Some err \<Rightarrow> Raised err s1
        | None \<Rightarrow>
            if candle_list s1 = [] then add_new_candle print_df c s1
            else (case last (candle_list s1) of
                    [] \<Rightarrow> Raised IndexError s1
                  | t # _ \<Rightarrow> if c ! 0 \<noteq> t then add_new_candle print_df c s1
                             else update_last_candle print_df c s1))"
      using Some c a by (simp add: process_data_def split: option.splits)
    have add: "candle_list (outcome_state (add_new_candle print_df c s1)) =
            (let xs = candle_list s @ [c]
             in if max_candles s < int (length xs) then py_slice_from (- max_candles s) xs
                else xs)"
      by (simp add: candle_list_add_new_candle cl mc Let_def)
    have upd: "candle_list (outcome_state (update_last_candle print_df c s1)) =
            (candle_list s)[length (candle_list s) - 1 := c]"
      by (simp add: update_last_candle_state cl)
    show ?thesis
      unfolding p using add upd cl mc
      by (auto simp: add_new_candle_max_candles update_last_candle_state
          split: option.splits list.splits)
  qed
qed

lemma process_data_length:
  assumes "1 \<le> max_candles s" and "int (length (candle_list s)) \<le> max_candles s"
  shows "int (length (candle_list (outcome_state (process_data print_df data s)))) \<le> max_candles s"
  using process_data_shape [of print_df data s] assms
  by (auto simp: Let_def py_slice_from_def)

lemma process_all_length:
  "1 \<le> max_candles s \<Longrightarrow> int (length (candle_list s)) \<le> max_candles s \<Longrightarrow>
   int (length (candle_list (outcome_state (process_all print_df ds s)))) \<le> max_candles s"
proof (induction ds arbitrary: s)
  case Nil
  then show ?case by simp
next
  case (Cons d ds)
  have l: "int (length (candle_list (outcome_state (process_data print_df d s)))) \<le> max_candles s"
    using Cons.prems by (rule process_data_length)
  have m: "max_candles (outcome_state (process_data print_df d s)) = max_candles s"
    using process_data_shape [of print_df d s] by simp
  show ?case
  proof (cases "process_data print_df d s")
    case (Ok s1)
    with l m Cons.prems have "1 \<le> max_candles s1" "int (length (candle_list s1)) \<le> max_candles s1"
      by simp_all
    then have "int (length (candle_list (outcome_state (process_all print_df ds s1)))) \<le> max_candles s1"
      by (rule Cons.IH)
    with Ok m show ?thesis by simp
  next
    case (Raised err s1)
    with l show ?thesis by simp
  qed
qed

lemma sorted_wrt_less_le_last:
  "sorted_wrt (<) (xs :: int list) \<Longrightarrow> x \<in> set xs \<Longrightarrow> x \<le> last xs"
  by (induction xs) (auto simp: less_imp_le)

lemma strictly_increasing_append:
  assumes "strictly_increasing cl" and "open_time c = Some b"
    and "cl \<noteq> [] \<Longrightarrow> \<exists>a. open_time (last cl) = Some a \<and> a < b"
  shows "strictly_increasing (cl @ [c])"
proof (cases "cl = []")
  case True
  with assms(2) show ?thesis by (simp add: strictly_increasing_def)
next
  case False
  from assms(3) [OF False] obtain a where a: "open_time (last cl) = Some a" "a < b"
    by blast
  have s: "sorted_wrt (<) (map (\<lambda>c. the (open_time c)) cl)"
    using assms(1) by (simp add: strictly_increasing_def)
  have l: "last (map (\<lambda>c. the (open_time c)) cl) = a"
    using False a by (simp add: last_map)
  have "x < b" if "x \<in> set (map (\<lambda>c. the (open_time c)) cl)" for x
    using sorted_wrt_less_le_last [OF s that] l a(2) by simp
  with s assms(1,2) show ?thesis
    by (simp add: strictly_increasing_def sorted_wrt_append)
qed

lemma strictly_increasing_drop:
  "strictly_increasing cl \<Longrightarrow> strictly_increasing (drop k cl)"
  unfolding strictly_increasing_def
  by (auto simp: list_all_iff drop_map [symmetric] dest: in_set_dropD)

lemma strictly_increasing_update:
  assumes "strictly_increasing cl" and "cl \<noteq> []" and "open_time c = open_time (last cl)"
  shows "strictly_increasing (cl[length cl - 1 := c])"
proof -
  have n: "last cl = cl ! (length cl - 1)"
    using assms(2) by (rule last_conv_nth)
  have "map (\<lambda>c. the (open_time c)) (cl[length cl - 1 := c]) = map (\<lambda>c. the (open_time c)) cl"
    using assms(2,3) n by (simp add: map_update list_update_same_conv)
  moreover have "open_time c \<noteq> None"
    using assms by (auto simp: strictly_increasing_def list_all_iff)
  moreover have "list_all (\<lambda>c. open_time c \<noteq> None) cl"
    using assms(1) by (simp add: strictly_increasing_def)
  ultimately show ?thesis
    using assms(1) set_update_subset_insert [of cl "length cl - 1" c]
    by (auto simp: strictly_increasing_def list_all_iff)
qed


lemma tail_timestamp_drop_snoc:
  assumes "c \<noteq> []"
  shows "drop k (cl @ [c]) = [] \<or> tail_timestamp (drop k (cl @ [c])) = Some (c ! 0)"
proof (cases "drop k (cl @ [c]) = []")
  case True
  then show ?thesis by simp
next
  case False
  then have "k < length (cl @ [c])" by (simp only: drop_eq_Nil not_le)
  then have "last (drop k (cl @ [c])) = c" by (simp only: last_drop) simp
  with False assms show ?thesis
    by (cases c) (simp_all add: tail_timestamp_def)
qed

lemma tail_timestamp_update:
  assumes "c \<noteq> []" and "cl \<noteq> []"
  shows "tail_timestamp (cl[length cl - 1 := c]) = Some (c ! 0)"
proof -
  have "last (cl[length cl - 1 := c]) = c"
    using assms(2) by (simp add: last_conv_nth)
  with assms show ?thesis
    by (cases c) (simp_all add: tail_timestamp_def)
qed

text \<open>
  The two moves of the loops on a series in order: appending (and trimming) a candle that
  is new, overwriting the tail with a candle of the same timestamp.
\<close>

lemma feed_step_append:
  assumes "strictly_increasing cl" and "cl = [] \<or> tail_timestamp cl = t"
    and "length c = 7" and "py_int (c ! 0) \<noteq> None"
    and "case t of
           None \<Rightarrow> True
         | Some u \<Rightarrow>
             c ! 0 = u
             \<or> (case (py_int u, py_int (c ! 0)) of (Some a, Some b) \<Rightarrow> a < b | _ \<Rightarrow> False)"
    and "cl = [] \<or> c ! 0 \<noteq> last cl ! 0"
  shows "strictly_increasing (cl @ [c])"
proof -
  from assms(3) have ne: "c \<noteq> []" by auto
  from assms(4) obtain b where b: "py_int (c ! 0) = Some b" by auto
  with ne have ob: "open_time c = Some b"
    by (cases c) (simp_all add: open_time_def)
  have "\<exists>a. open_time (last cl) = Some a \<and> a < b" if n: "cl \<noteq> []"
  proof -
    from assms(1) n have "open_time (last cl) \<noteq> None"
      by (simp add: strictly_increasing_def list_all_iff)
    then obtain x xs where l: "last cl = x # xs"
      by (cases "last cl") (simp_all add: open_time_def)
    with n assms(2) have t: "t = Some x" by (simp add: tail_timestamp_def)
    from l n assms(6) have "c ! 0 \<noteq> x" by simp
    with assms(5) t b obtain a where "py_int x = Some a" "a < b"
      by (auto split: option.splits)
    with l show ?thesis by (simp add: open_time_def)
  qed
  with assms(1) ob show ?thesis by (intro strictly_increasing_append) auto
qed

lemma feed_step_update:
  assumes "strictly_increasing cl" and "cl \<noteq> []" and "c \<noteq> []"
    and "c ! 0 = last cl ! 0"
  shows "strictly_increasing (cl[length cl - 1 := c])"
proof -
  from assms(1,2) have "open_time (last cl) \<noteq> None"
    by (simp add: strictly_increasing_def list_all_iff)
  then obtain x xs where l: "last cl = x # xs"
    by (cases "last cl") (simp_all add: open_time_def)
  with assms(3,4) have "open_time c = open_time (last cl)"
    by (cases c) (simp_all add: open_time_def)
  with assms(1,2) show ?thesis by (intro strictly_increasing_update)
qed

lemma process_data_wf:
  assumes "candles d = Some c" and "5 \<le> length c"
  shows "candle_list (outcome_state (process_data print_df (Some d) s)) =
     (if candle_list s = [] \<or> (last (candle_list s) \<noteq> [] \<and> c ! 0 \<noteq> last (candle_list s) ! 0)
      then (let xs = candle_list s @ [c]
            in if max_candles s < int (length xs) then py_slice_from (- max_candles s) xs
               else xs)
      else if last (candle_list s) = [] then candle_list s
      else (candle_list s)[length (candle_list s) - 1 := c])"
  using assms
  by (cases "last (candle_list s)")
     (auto simp: process_data_def live_fields add_new_candle_def update_last_candle_def Let_def
        split: option.splits)

lemma start_step_wf:
  assumes "candles d = Some c" and "7 \<le> length c"
  shows "candle_list (outcome_state (start_step print_df (Some d) u)) =
     (if candle_list u = [] \<or> last (candle_list u) = [] then candle_list u
      else if c ! 0 \<noteq> last (candle_list u) ! 0
      then (let xs = candle_list u @ [c]
            in if 500 < length xs then py_slice_from (- 500) xs else xs)
      else (candle_list u)[length (candle_list u) - 1 := c])"
proof -
  from assms(2) have ne: "c \<noteq> []" by auto
  show ?thesis
    using assms ne
    by (cases "last (candle_list u)")
       (auto simp: start_step_def process_candle_data_def candle_fields Let_def
          split: option.splits)
qed

lemma slice_or_not_is_drop:
  "\<exists>k. (if b then py_slice_from i xs else xs) = drop k xs"
proof (cases b)
  case True
  then show ?thesis by (auto simp: py_slice_from_def)
next
  case False
  then have "(if b then py_slice_from i xs else xs) = drop 0 xs" by simp
  then show ?thesis by blast
qed

lemma nonempty_last_of_increasing:
  assumes "strictly_increasing cl" and "cl \<noteq> []"
  shows "last cl \<noteq> []"
proof -
  from assms(2) have "last cl \<in> set cl" by (rule last_in_set)
  with assms(1) have "open_time (last cl) \<noteq> None"
    by (simp add: strictly_increasing_def list_all_iff)
  then show ?thesis by (auto simp: open_time_def)
qed

lemma process_data_feed:
  assumes "strictly_increasing (candle_list s)"
    and "candle_list s = [] \<or> tail_timestamp (candle_list s) = t"
    and "candles d = Some c" and "length c = 7" and "py_int (c ! 0) \<noteq> None"
    and "case t of
           None \<Rightarrow> True
         | Some u \<Rightarrow>
             c ! 0 = u
             \<or> (case (py_int u, py_int (c ! 0)) of (Some a, Some b) \<Rightarrow> a < b | _ \<Rightarrow> False)"
  shows "strictly_increasing (candle_list (outcome_state (process_data print_df (Some d) s)))
       \<and> (candle_list (outcome_state (process_data print_df (Some d) s)) = []
          \<or> tail_timestamp (candle_list (outcome_state (process_data print_df (Some d) s)))
              = Some (c ! 0))"
proof -
  let ?cl = "candle_list s"
  let ?r = "candle_list (outcome_state (process_data print_df (Some d) s))"
  from assms(4) have ne: "c \<noteq> []" and l5: "5 \<le> length c" by auto
  have nl: "last ?cl \<noteq> []" if "?cl \<noteq> []"
    using assms(1) that by (rule nonempty_last_of_increasing)
  show ?thesis
  proof (cases "?cl = [] \<or> c ! 0 \<noteq> last ?cl ! 0")
    case True
    obtain k where k: "(if max_candles s < int (length (?cl @ [c]))
        then py_slice_from (- max_candles s) (?cl @ [c]) else ?cl @ [c]) = drop k (?cl @ [c])"
      using slice_or_not_is_drop by blast
    have r: "?r = drop k (?cl @ [c])"
      using True nl k by (auto simp: process_data_wf [OF assms(3) l5] Let_def)
    have "strictly_increasing (?cl @ [c])"
      using assms(1,2,4,5,6) True by (rule feed_step_append)
    then have "strictly_increasing (drop k (?cl @ [c]))"
      by (rule strictly_increasing_drop)
    with tail_timestamp_drop_snoc [OF ne, of k ?cl] show ?thesis
      unfolding r by blast
  next
    case False
    then have n: "?cl \<noteq> []" and e: "c ! 0 = last ?cl ! 0" by auto
    have "?r = ?cl[length ?cl - 1 := c]"
      using n e nl by (simp add: process_data_wf [OF assms(3) l5])
    moreover have "strictly_increasing (?cl[length ?cl - 1 := c])"
      using assms(1) n ne e by (rule feed_step_update)
    ultimately show ?thesis
      using tail_timestamp_update [OF ne n] by simp
  qed
qed

lemma start_step_feed:
  assumes "strictly_increasing (candle_list u)"
    and "candle_list u = [] \<or> tail_timestamp (candle_list u) = t"
    and "candles d = Some c" and "length c = 7" and "py_int (c ! 0) \<noteq> None"
    and "case t of
           None \<Rightarrow> True
         | Some u \<Rightarrow>
             c ! 0 = u
             \<or> (case (py_int u, py_int (c ! 0)) of (Some a, Some b) \<Rightarrow> a < b | _ \<Rightarrow> False)"
  shows "strictly_increasing (candle_list (outcome_state (start_step print_df (Some d) u)))
       \<and> (candle_list (outcome_state (start_step print_df (Some d) u)) = []
          \<or> tail_timestamp (candle_list (outcome_state (start_step print_df (Some d) u)))
              = Some (c ! 0))"
proof -
  let ?cl = "candle_list u"
  let ?r = "candle_list (outcome_state (start_step print_df (Some d) u))"
  from assms(4) have ne: "c \<noteq> []" and l7: "7 \<le> length c" by auto
  show ?thesis
  proof (cases "?cl = []")
    case True
    then have "?r = []" by (simp add: start_step_wf [OF assms(3) l7])
    then show ?thesis by (simp add: strictly_increasing_def)
  next
    case n: False
    have nl: "last ?cl \<noteq> []"
      using assms(1) n by (rule nonempty_last_of_increasing)
    show ?thesis
    proof (cases "c ! 0 \<noteq> last ?cl ! 0")
      case True
      obtain k where k: "(if 500 < length (?cl @ [c])
          then py_slice_from (- 500) (?cl @ [c]) else ?cl @ [c]) = drop k (?cl @ [c])"
        using slice_or_not_is_drop by blast
      have r: "?r = drop k (?cl @ [c])"
        using True n nl k by (auto simp: start_step_wf [OF assms(3) l7] Let_def)
      have "strictly_increasing (?cl @ [c])"
        using assms(1,2,4,5,6) True by (intro feed_step_append) auto
      then have "strictly_increasing (drop k (?cl @ [c]))"
        by (rule strictly_increasing_drop)
      with tail_timestamp_drop_snoc [OF ne, of k ?cl] show ?thesis
        unfolding r by blast
    next
      case False
      then have e: "c ! 0 = last ?cl ! 0" by simp
      have "?r = ?cl[length ?cl - 1 := c]"
        using n e nl by (simp add: start_step_wf [OF assms(3) l7])
      moreover have "strictly_increasing (?cl[length ?cl - 1 := c])"
        using assms(1) n ne e by (rule feed_step_update)
      ultimately show ?thesis
        using tail_timestamp_update [OF ne n] by simp
    qed
  qed
qed

lemma process_all_increasing:
  "strictly_increasing (candle_list s) \<Longrightarrow>
   candle_list s = [] \<or> tail_timestamp (candle_list s) = t \<Longrightarrow>
   ascending_feed t ds \<Longrightarrow>
   strictly_increasing (candle_list (outcome_state (process_all print_df ds s)))"
proof (induction ds arbitrary: s t)
  case Nil
  then show ?case by simp
next
  case (Cons d ds)
  show ?case
  proof (cases d)
    case None
    with Cons.prems have "ascending_feed t ds" by simp
    with Cons.IH [OF Cons.prems(1,2)] None show ?thesis
      by (simp add: process_data_def)
  next
    case (Some e)
    with Cons.prems(3) obtain c where c: "candles e = Some c" "length c = 7"
      "py_int (c ! 0) \<noteq> None"
      "case t of
           None \<Rightarrow> True
         | Some u \<Rightarrow>
             c ! 0 = u
             \<or> (case (py_int u, py_int (c ! 0)) of (Some a, Some b) \<Rightarrow> a < b | _ \<Rightarrow> False)"
      "ascending_feed (Some (c ! 0)) ds"
      by (auto split: option.splits)
    note st = process_data_feed [OF Cons.prems(1,2) c(1-4), of print_df]
    show ?thesis
    proof (cases "process_data print_df (Some e) s")
      case (Ok s1)
      with st have "strictly_increasing (candle_list s1)"
        "candle_list s1 = [] \<or> tail_timestamp (candle_list s1) = Some (c ! 0)"
        by simp_all
      from Cons.IH [OF this c(5)] Ok Some show ?thesis by simp
    next
      case (Raised err s1)
      with st Some show ?thesis by simp
    qed
  qed
qed

lemma start_loop_increasing:
  "strictly_increasing (candle_list u) \<Longrightarrow>
   candle_list u = [] \<or> tail_timestamp (candle_list u) = t \<Longrightarrow>
   ascending_feed t ds \<Longrightarrow>
   strictly_increasing (candle_list (outcome_state (start_loop print_df ds u)))"
proof (induction ds arbitrary: u t)
  case Nil
  then show ?case by simp
next
  case (Cons d ds)
  show ?case
  proof (cases d)
    case None
    with Cons.prems have "ascending_feed t ds" by simp
    with Cons.IH [OF Cons.prems(1,2)] None show ?thesis
      by (simp add: start_step_def process_candle_data_def)
  next
    case (Some e)
    with Cons.prems(3) obtain c where c: "candles e = Some c" "length c = 7"
      "py_int (c ! 0) \<noteq> None"
      "case t of
           None \<Rightarrow> True
         | Some u \<Rightarrow>
             c ! 0 = u
             \<or> (case (py_int u, py_int (c ! 0)) of (Some a, Some b) \<Rightarrow> a < b | _ \<Rightarrow> False)"
      "ascending_feed (Some (c ! 0)) ds"
      by (auto split: option.splits)
    note st = start_step_feed [OF Cons.prems(1,2) c(1-4), of print_df]
    show ?thesis
    proof (cases "start_step print_df (Some e) u")
      case (Ok u1)
      with st have "strictly_increasing (candle_list u1)"
        "candle_list u1 = [] \<or> tail_timestamp (candle_list u1) = Some (c ! 0)"
        by simp_all
      from Cons.IH [OF this c(5)] Ok Some show ?thesis by simp
    next
      case (Raised err u1)
      with st Some show ?thesis by simp
    qed
  qed
qed

lemma start_step_length:
  assumes "length (candle_list u) \<le> 500"
  shows "length (candle_list (outcome_state (start_step print_df data u))) \<le> 500"
proof -
  obtain r u1 where p: "process_candle_data data u = (r, u1)"
    by (cases "process_candle_data data u")
  with process_candle_data_candle_list [of data u] assms have "length (candle_list u1) \<le> 500"
    by simp
  with p show ?thesis
    by (auto simp: start_step_def Let_def py_slice_from_def
        split: sum.splits option.splits list.splits)
qed

lemma start_loop_length:
  "length (candle_list u) \<le> 500 \<Longrightarrow>
   length (candle_list (outcome_state (start_loop print_df ds u))) \<le> 500"
proof (induction ds arbitrary: u)
  case Nil
  then show ?case by simp
next
  case (Cons d ds)
  from Cons.prems have l: "length (candle_list (outcome_state (start_step print_df d u))) \<le> 500"
    by (rule start_step_length)
  show ?case
  proof (cases "start_step print_df d u")
    case (Ok u1)
    with l have "length (candle_list u1) \<le> 500" by simp
    with Cons.IH Ok show ?thesis by simp
  next
    case (Raised err u1)
    with l show ?thesis by simp
  qed
qed






section \<open>Facts about the fetch\<close>

lemma consumed_goes_on:
  "goes_on start_ts r \<Longrightarrow> consumed start_ts (r # rs) = r # consumed start_ts rs"
  by (simp add: consumed_def)

lemma consumed_stops:
  "\<not> goes_on start_ts r \<Longrightarrow> consumed start_ts (r # rs) = [r]"
  by (simp add: consumed_def)

lemma fetch_loop_rows:
  "fetch_loop start_ts rs acc = Some (Inr chunks) \<Longrightarrow>
   chunks = acc @ concat (map rows_of (consumed start_ts rs))"
proof (induction rs arbitrary: acc)
  case Nil
  then show ?case by simp
next
  case (Cons r rs)
  show ?case
  proof (cases r)
    case (Inl e)
    with Cons.prems show ?thesis by simp
  next
    case (Inr chunk)
    show ?thesis
    proof (cases "chunk = []")
      case True
      with Inr have "\<not> goes_on start_ts r" by (simp add: goes_on_def)
      then have "consumed start_ts (r # rs) = [r]" by (rule consumed_stops)
      with Cons.prems Inr True show ?thesis by (simp add: rows_of_def)
    next
      case False
      with Cons.prems Inr obtain t ts e where
        l: "last chunk = t # ts" and p: "py_int t = Some e"
        by (auto split: list.splits option.splits)
      show ?thesis
      proof (cases "e \<le> start_ts")
        case True
        with Inr l p have "\<not> goes_on start_ts r" by (simp add: goes_on_def)
        then have "consumed start_ts (r # rs) = [r]" by (rule consumed_stops)
        with Cons.prems Inr False l p True show ?thesis by (simp add: rows_of_def)
      next
        case gt: False
        with Inr False l p have "goes_on start_ts r" by (simp add: goes_on_def)
        then have c: "consumed start_ts (r # rs) = r # consumed start_ts rs"
          by (rule consumed_goes_on)
        from Cons.prems Inr False l p gt
        have "fetch_loop start_ts rs (acc @ chunk) = Some (Inr chunks)"
          by simp
        from Cons.IH [OF this] c Inr show ?thesis by (simp add: rows_of_def)
      qed
    qed
  qed
qed

lemma sort_and_filter_result:
  "sort_and_filter start_ts end_ts chunks = Inr result \<Longrightarrow>
   result = filter (in_range start_ts end_ts) (sort_key (\<lambda>x. x ! 0) chunks)"
  by (auto simp: sort_and_filter_def Let_def split: if_splits)

lemma fetch_all_candles_result:
  assumes "fetch_all_candles start_ts end_ts rs = Some (Inr result)"
  shows "result = filter (in_range start_ts end_ts)
                    (sort_key (\<lambda>x. x ! 0) (concat (map rows_of (consumed start_ts rs))))"
proof -
  from assms obtain chunks where
    l: "fetch_loop start_ts rs [] = Some (Inr chunks)"
    and s: "sort_and_filter start_ts end_ts chunks = Inr result"
    by (auto simp: fetch_all_candles_def split: option.splits sum.splits)
  from fetch_loop_rows [OF l] have "chunks = concat (map rows_of (consumed start_ts rs))"
    by simp
  with sort_and_filter_result [OF s] show ?thesis by simp
qed

lemma stable_sort_then_filter:
  "filter (\<lambda>c. f c = k) (filter P (sort_key f xs)) = filter (\<lambda>c. f c = k) (filter P xs)"
proof -
  have "filter (\<lambda>c. f c = k) (filter P (sort_key f xs)) =
        filter P (filter (\<lambda>c. f c = k) (sort_key f xs))"
    by (simp add: conj_commute)
  also have "\<dots> = filter P (filter (\<lambda>c. f c = k) xs)"
    by (simp only: sort_key_stable)
  also have "\<dots> = filter (\<lambda>c. f c = k) (filter P xs)"
    by (simp add: conj_commute)
  finally show ?thesis .
qed

lemma parse_digits_foldl:
  "list_all is_digit s \<Longrightarrow>
   parse_digits acc s = Some (foldl (\<lambda>a c. a * 10 + digit_val c) acc s)"
  by (induction s arbitrary: acc) simp_all

lemma foldl_digits_shift:
  "foldl (\<lambda>a c. a * 10 + digit_val c) acc s =
   acc * 10 ^ length s + foldl (\<lambda>a c. a * 10 + digit_val c) 0 s"
proof (induction s arbitrary: acc)
  case Nil
  then show ?case by simp
next
  case (Cons c s)
  have "foldl (\<lambda>a c. a * 10 + digit_val c) acc (c # s) =
        (acc * 10 + digit_val c) * 10 ^ length s + foldl (\<lambda>a c. a * 10 + digit_val c) 0 s"
    using Cons.IH [of "acc * 10 + digit_val c"] by simp
  moreover have "foldl (\<lambda>a c. a * 10 + digit_val c) 0 (c # s) =
        digit_val c * 10 ^ length s + foldl (\<lambda>a c. a * 10 + digit_val c) 0 s"
    using Cons.IH [of "digit_val c"] by simp
  ultimately show ?case by (simp add: algebra_simps)
qed

lemma digit_val_range: "is_digit c \<Longrightarrow> 0 \<le> digit_val c \<and> digit_val c \<le> 9"
  by (auto simp: is_digit_def digit_val_def Let_def)

lemma foldl_digits_bounds:
  "list_all is_digit s \<Longrightarrow>
   0 \<le> foldl (\<lambda>a c. a * 10 + digit_val c) 0 s
   \<and> foldl (\<lambda>a c. a * 10 + digit_val c) 0 s < 10 ^ length s"
proof (induction s rule: rev_induct)
  case Nil
  then show ?case by simp
next
  case (snoc c s)
  then have d: "0 \<le> digit_val c \<and> digit_val c \<le> 9" by (simp add: digit_val_range)
  from snoc have "0 \<le> foldl (\<lambda>a c. a * 10 + digit_val c) 0 s"
    "foldl (\<lambda>a c. a * 10 + digit_val c) 0 s < 10 ^ length s"
    by simp_all
  with d show ?case by simp
qed

lemma digit_less: "c < d \<longleftrightarrow> digit_val c < digit_val d"
  by (simp add: less_char_def digit_val_def)

text \<open>On digit strings of one length the order of the strings is the order of the numbers.\<close>

lemma digits_le_imp_value_le:
  "length s = length t \<Longrightarrow> list_all is_digit s \<Longrightarrow> list_all is_digit t \<Longrightarrow> s \<le> t \<Longrightarrow>
   foldl (\<lambda>a c. a * 10 + digit_val c) 0 s \<le> foldl (\<lambda>a c. a * 10 + digit_val c) 0 t"
proof (induction s t rule: list_induct2)
  case Nil
  then show ?case by simp
next
  case (Cons c s d t)
  let ?v = "foldl (\<lambda>a c. a * 10 + digit_val c) 0"
  have vs: "?v (c # s) = digit_val c * 10 ^ length s + ?v s"
    using foldl_digits_shift [of "digit_val c" s] by simp
  have vt: "?v (d # t) = digit_val d * 10 ^ length s + ?v t"
    using foldl_digits_shift [of "digit_val d" t] Cons.hyps by simp
  from Cons.prems have bs: "0 \<le> ?v s" "?v s < 10 ^ length s"
    using foldl_digits_bounds [of s] by simp_all
  from Cons.prems Cons.hyps have bt: "0 \<le> ?v t" "?v t < 10 ^ length s"
    using foldl_digits_bounds [of t] by simp_all
  from Cons.prems(3) consider "c < d" | "c = d" "s \<le> t" by auto
  then show ?case
  proof cases
    case 1
    then have "digit_val c + 1 \<le> digit_val d" by (simp add: digit_less)
    then have "(digit_val c + 1) * 10 ^ length s \<le> digit_val d * 10 ^ length s"
      by (rule mult_right_mono) simp
    with bs bt show ?thesis unfolding vs vt by (simp add: algebra_simps)
  next
    case 2
    with Cons.IH Cons.prems have "?v s \<le> ?v t" by simp
    with 2 show ?thesis unfolding vs vt by simp
  qed
qed

lemma py_int_digits:
  assumes "list_all is_digit s" and "s \<noteq> []"
  shows "py_int s =
     (if length s > int_max_str_digits then None
      else Some (foldl (\<lambda>a c. a * 10 + digit_val c) 0 s))"
proof -
  have ns: "\<not> is_space c" if "is_digit c" for c
    using that by (auto simp: is_digit_def is_space_def Let_def)
  from assms obtain c cs where s: "s = c # cs" by (cases s) auto
  with assms have c: "is_digit c" and cs: "list_all is_digit cs" by simp_all
  from assms have "is_digit (last s)"
    using last_in_set [of s] by (simp add: list_all_iff)
  with assms(2) have "dropWhile is_space (rev s) = rev s"
    by (cases "rev s") (auto simp: ns last_rev)
  moreover have "dropWhile is_space s = s"
    using s c by (simp add: ns)
  ultimately have st: "strip s = c # cs" by (simp add: strip_def s)
  have f: "filter is_digit (c # cs) = c # cs"
    using c cs by (simp add: list_all_iff)
  have "c \<noteq> CHR ''+''" "c \<noteq> CHR ''-''"
    using c by (auto simp: is_digit_def)
  with st c cs show ?thesis
    unfolding py_int_def st list.case f
    by (simp add: parse_number_def parse_digits_foldl s)
qed

lemma fetch_overlap:
  "fetch_all_candles 100 300 overlap =
   Some (Inr [bar ''100'', bar ''160'', [''160'', ''9'', ''9'', ''9'', ''9'', ''9'', ''9''],
              bar ''220''])"
  by (simp add: overlap_def fetch_all_candles_def sort_and_filter_def in_range_def
        py_int_eval example_defs)

lemma fetch_same_length:
  "fetch_all_candles 100 300 [Inr [bar ''220'', bar ''160''], Inr [bar ''100'']] =
     Some (Inr [bar ''100'', bar ''160'', bar ''220''])"
  by (simp add: fetch_all_candles_def sort_and_filter_def in_range_def
        py_int_eval example_defs)

section \<open>Facts about the construction\<close>

lemma timeframe_delta_unsupported:
  "\<not> endswith tf ''min'' \<Longrightarrow> \<not> endswith tf ''hour'' \<Longrightarrow> \<not> endswith tf ''day'' \<Longrightarrow>
   timeframe_delta tf = Inl ValueError"
  by (simp add: timeframe_delta_def)

lemma timedelta_cases: "(\<exists>d. timedelta us = Inr d) \<or> timedelta us = Inl OverflowError"
  by (simp add: timedelta_def)

lemma timeframe_delta_supported:
  assumes "list_all is_digit ds" and "ds \<noteq> []" and "length ds \<le> int_max_str_digits"
    and "unit \<in> {''min'', ''hour'', ''day''}"
  shows "(\<exists>d. timeframe_delta (ds @ unit) = Inr d)
       \<or> timeframe_delta (ds @ unit) = Inl OverflowError"
proof -
  from assms(1-3) obtain v where v: "py_int ds = Some v"
    by (simp add: py_int_digits)
  have m: "endswith (ds @ ''min'') ''min''" "py_drop_last 3 (ds @ ''min'') = ds"
    by (simp_all add: endswith_def py_drop_last_def)
  have h: "\<not> endswith (ds @ ''hour'') ''min''" "endswith (ds @ ''hour'') ''hour''"
    "py_drop_last 4 (ds @ ''hour'') = ds"
    by (simp_all add: endswith_def py_drop_last_def)
  have d: "\<not> endswith (ds @ ''day'') ''min''" "\<not> endswith (ds @ ''day'') ''hour''"
    "endswith (ds @ ''day'') ''day''" "py_drop_last 3 (ds @ ''day'') = ds"
    by (simp_all add: endswith_def py_drop_last_def)
  from assms(4) consider "unit = ''min''" | "unit = ''hour''" | "unit = ''day''" by auto
  then show ?thesis
  proof cases
    case 1
    with m v timedelta_cases [of "v * 60000000"] show ?thesis
      by (simp add: timeframe_delta_def)
  next
    case 2
    with h v timedelta_cases [of "v * 3600000000"] show ?thesis
      by (simp add: timeframe_delta_def)
  next
    case 3
    with d v timedelta_cases [of "v * us_per_day"] show ?thesis
      by (simp add: timeframe_delta_def)
  qed
qed

lemma datetime_sub_cases:
  "(\<exists>r. datetime_sub t delta = Inr r) \<or> datetime_sub t delta = Inl OverflowError"
  by (simp add: datetime_sub_def Let_def)

lemma calculate_start_time_supported:
  assumes "list_all is_digit ds" and "ds \<noteq> []" and "length ds \<le> int_max_str_digits"
    and "unit \<in> {''min'', ''hour'', ''day''}"
  shows "(\<exists>t. calculate_start_time_with_bars (ds @ unit) lookback now = Inr t)
       \<or> calculate_start_time_with_bars (ds @ unit) lookback now = Inl OverflowError"
proof -
  from timeframe_delta_supported [OF assms]
  consider d where "timeframe_delta (ds @ unit) = Inr d"
    | "timeframe_delta (ds @ unit) = Inl OverflowError"
    by blast
  then show ?thesis
  proof cases
    case 1
    show ?thesis
    proof (cases "timedelta (lookback * d)")
      case (Inl e)
      with timedelta_cases [of "lookback * d"] 1 show ?thesis
        by (simp add: calculate_start_time_with_bars_def)
    next
      case (Inr x)
      with datetime_sub_cases [of now x] 1 show ?thesis
        by (simp add: calculate_start_time_with_bars_def)
    qed
  next
    case 2
    then show ?thesis by (simp add: calculate_start_time_with_bars_def)
  qed
qed

section \<open>Claims\<close>

text \<open>
  C1 (as amended). An event whose openTime is strictly less than the openTime of the
  series' last bar is not discarded. Its timestamp differs from the tail's, so the step
  appends its candle at the end of the series like any other new candle and then trims the
  series to the capacity (\<open>max_candles\<close> in \<open>LiveDataUpdater.process_data\<close>, 500 in
  \<open>CandleUpdate.start\<close>); the updaters have no dropped-message counter.
\<close>

theorem stale_event_is_appended:
  assumes "candles d = Some candle" and "length candle = 7"
    and "candle_list s \<noteq> []" and "last (candle_list s) \<noteq> []"
    and "candle_list u = candle_list s"
    and "py_int (candle ! 0) = Some a" and "py_int (last (candle_list s) ! 0) = Some b"
    and "a < b"
  shows "candle_list (outcome_state (process_data print_df (Some d) s)) =
           (let xs = candle_list s @ [candle]
            in if max_candles s < int (length xs) then py_slice_from (- max_candles s) xs else xs)
       \<and> candle_list (outcome_state (start_step print_df (Some d) u)) =
           (let xs = candle_list s @ [candle]
            in if 500 < length xs then py_slice_from (- 500) xs else xs)"
proof -
  from assms(6-8) have diff: "candle ! 0 \<noteq> last (candle_list s) ! 0" by auto
  have "process_data print_df (Some d) s =
     add_new_candle print_df candle
       (s\<lparr>open := Some (candle ! 1), close := Some (candle ! 2),
              high := Some (candle ! 3), low := Some (candle ! 4)\<rparr>)"
    using assms(1-4) diff by (intro process_data_differs) auto
  then have A: "candle_list (outcome_state (process_data print_df (Some d) s)) =
           (let xs = candle_list s @ [candle]
            in if max_candles s < int (length xs) then py_slice_from (- max_candles s) xs else xs)"
    by (simp add: candle_list_add_new_candle Let_def)
  have B: "candle_list (outcome_state (start_step print_df (Some d) u)) =
           (let xs = candle_list u @ [candle]
            in if 500 < length xs then py_slice_from (- 500) xs else xs)"
    using assms(1-5) diff by (intro start_step_differs) auto
  show ?thesis using A B assms(5) by simp
qed

text \<open>
  The scenario of the specification: the series holds the bars 100, 101, 102 and an event
  with openTime 99 arrives. The series does not stay as it was.
\<close>

theorem stale_event_counterexample:
  "py_int (bar ''99'' ! 0) = Some 99
   \<and> py_int (last [bar ''100'', bar ''101'', bar ''102''] ! 0) = Some 102
   \<and> process_data (\<lambda>rows. None) (tick ''99'')
       (live_updater 3 [bar ''100'', bar ''101'', bar ''102''])
     = Ok ((live_updater 3 [bar ''101'', bar ''102'', bar ''99''])
            \<lparr>open := Some ''1'', close := Some ''2'',
             high := Some ''3'', low := Some ''0''\<rparr>)
   \<and> candle_list (outcome_state (start_step (\<lambda>rows. None) (tick ''99'')
       (candle_updater 3 [bar ''100'', bar ''101'', bar ''102'']))) 
     = [bar ''100'', bar ''101'', bar ''102'', bar ''99'']"
  by (simp add: example_defs py_int_eval process_data_def add_new_candle_def
        py_slice_from_def start_step_def process_candle_data_def)

theorem stale_event_is_appended_witness:
  "candle_list (outcome_state (process_data (\<lambda>rows. None) (tick ''99'')
       (live_updater 3 [bar ''100'', bar ''101'', bar ''102''])))
     = [bar ''101'', bar ''102'', bar ''99'']
   \<and> candle_list (outcome_state (start_step (\<lambda>rows. None) (tick ''99'')
       (candle_updater 3 [bar ''100'', bar ''101'', bar ''102''])))
     = [bar ''100'', bar ''101'', bar ''102'', bar ''99'']"
  using stale_event_is_appended [of "the (tick ''99'')" "bar ''99''"
      "live_updater 3 [bar ''100'', bar ''101'', bar ''102'']"
      "candle_updater 3 [bar ''100'', bar ''101'', bar ''102'']" 99 102 "\<lambda>rows. None"]
  by (simp add: example_defs py_int_eval py_slice_from_def)

text \<open>
  C2 (as amended). The backfill merge does not deduplicate. It sorts the rows of all the
  chunks the loop has read by their timestamp string with a stable sort and keeps the rows
  whose openTime is in range: the result holds exactly the in-range rows received, each as
  often as it was received, and for every timestamp the rows returned with that timestamp
  are the in-range rows received with it, in the order of arrival. Rows that overlapping
  chunks deliver twice are returned twice.
\<close>

theorem fetch_all_candles_keeps_duplicates:
  assumes "fetch_all_candles start_ts end_ts responses = Some (Inr result)"
  shows "mset result =
           mset (filter (in_range start_ts end_ts)
                   (concat (map rows_of (consumed start_ts responses))))
       \<and> filter (\<lambda>c. c ! 0 = k) result =
           filter (\<lambda>c. c ! 0 = k)
             (filter (in_range start_ts end_ts)
                (concat (map rows_of (consumed start_ts responses))))"
proof -
  note r = fetch_all_candles_result [OF assms]
  have "mset result =
           mset (filter (in_range start_ts end_ts)
                   (concat (map rows_of (consumed start_ts responses))))"
    unfolding r by simp
  moreover have "filter (\<lambda>c. c ! 0 = k) result =
        filter (\<lambda>c. c ! 0 = k)
          (filter (in_range start_ts end_ts)
             (concat (map rows_of (consumed start_ts responses))))"
    unfolding r by (rule stable_sort_then_filter)
  ultimately show ?thesis by simp
qed

text \<open>The two chunks above: both rows of the bar 160 are returned.\<close>

theorem dedup_counterexample:
  "fetch_all_candles 100 300 overlap =
     Some (Inr [bar ''100'', bar ''160'', [''160'', ''9'', ''9'', ''9'', ''9'', ''9'', ''9''],
                bar ''220''])
   \<and> filter (\<lambda>c. c ! 0 = ''160'')
        [bar ''100'', bar ''160'', [''160'', ''9'', ''9'', ''9'', ''9'', ''9'', ''9''],
         bar ''220'']
     = [bar ''160'', [''160'', ''9'', ''9'', ''9'', ''9'', ''9'', ''9'']]"
  using fetch_overlap by (simp add: example_defs)

theorem fetch_all_candles_keeps_duplicates_witness:
  "fetch_all_candles 100 300 overlap =
     Some (Inr [bar ''100'', bar ''160'', [''160'', ''9'', ''9'', ''9'', ''9'', ''9'', ''9''],
                bar ''220''])
   \<and> consumed 100 overlap = overlap
   \<and> filter (\<lambda>c. c ! 0 = ''160'')
        [bar ''100'', bar ''160'', [''160'', ''9'', ''9'', ''9'', ''9'', ''9'', ''9''],
         bar ''220'']
     = filter (\<lambda>c. c ! 0 = ''160'') (filter (in_range 100 300) (concat (map rows_of overlap)))"
proof -
  have c: "consumed 100 overlap = overlap"
    by (simp add: consumed_def goes_on_def overlap_def bar_def py_int_eval)
  from fetch_all_candles_keeps_duplicates [OF fetch_overlap, of "''160''"] fetch_overlap c
  show ?thesis by simp
qed

text \<open>
  C3 (as amended). Starting from a series whose openTimes are strictly increasing, and for
  every sequence of events in which each event's timestamp is the timestamp of the bar
  before it or has a strictly greater openTime, the series is strictly increasing after
  every step of the live-merge loop, in \<open>LiveDataUpdater\<close> and in \<open>CandleUpdate.start\<close>.
  (An event with a smaller openTime is appended all the same and breaks the order.)
\<close>

theorem series_stays_increasing:
  assumes "strictly_increasing (candle_list s)" and "candle_list u = candle_list s"
    and "ascending_feed (tail_timestamp (candle_list s)) ds"
  shows "strictly_increasing (candle_list (outcome_state (process_all print_df ds s)))
       \<and> strictly_increasing (candle_list (outcome_state (start_loop print_df ds u)))"
  using assms process_all_increasing [of s "tail_timestamp (candle_list s)" ds print_df]
    start_loop_increasing [of u "tail_timestamp (candle_list s)" ds print_df]
  by simp

theorem series_order_counterexample:
  "strictly_increasing [bar ''100'', bar ''101'', bar ''102'']
   \<and> candle_list (outcome_state (process_all (\<lambda>rows. None) [tick ''99'']
        (live_updater 500 [bar ''100'', bar ''101'', bar ''102''])))
      = [bar ''100'', bar ''101'', bar ''102'', bar ''99'']
   \<and> \<not> strictly_increasing [bar ''100'', bar ''101'', bar ''102'', bar ''99'']
   \<and> candle_list (outcome_state (start_loop (\<lambda>rows. None) [tick ''99'']
        (candle_updater 500 [bar ''100'', bar ''101'', bar ''102''])))
      = [bar ''100'', bar ''101'', bar ''102'', bar ''99'']"
  by (simp add: example_defs py_int_eval process_data_def add_new_candle_def
        py_slice_from_def start_step_def process_candle_data_def
        strictly_increasing_def open_time_def)

theorem series_stays_increasing_witness:
  "strictly_increasing (candle_list (outcome_state
      (process_all (\<lambda>rows. None) [tick ''102'', None, tick ''103'', tick ''103'', tick ''104'']
         (live_updater 3 [bar ''100'', bar ''101'', bar ''102'']))))
   \<and> strictly_increasing (candle_list (outcome_state
      (start_loop (\<lambda>rows. None) [tick ''102'', None, tick ''103'', tick ''103'', tick ''104'']
         (candle_updater 3 [bar ''100'', bar ''101'', bar ''102'']))))"
  using series_stays_increasing [of "live_updater 3 [bar ''100'', bar ''101'', bar ''102'']"
      "candle_updater 3 [bar ''100'', bar ''101'', bar ''102'']"
      "[tick ''102'', None, tick ''103'', tick ''103'', tick ''104'']" "\<lambda>rows. None"]
  by (simp add: example_defs py_int_eval strictly_increasing_def open_time_def
        tail_timestamp_def)

text \<open>
  C4 (as amended). For a \<open>LiveDataUpdater\<close> whose \<open>max_candles\<close> is \<open>N \<ge> 1\<close>: after
  every live append the series is the last bars of the appended series, at most \<open>N\<close> of
  them, so the oldest bars have been dropped from the front (exactly the oldest one when
  the series held \<open>N\<close> bars); and a series that starts with at most \<open>N\<close> bars never
  exceeds \<open>N\<close>, whatever events arrive. No bound holds for \<open>N = 0\<close>. In
  \<open>CandleUpdate.start\<close> the capacity is the constant 500, not the lookback the updater was
  constructed with: a series of at most 500 bars never exceeds 500.
\<close>

theorem add_new_candle_capacity:
  assumes "1 \<le> max_candles s"
  shows "int (length (candle_list (outcome_state (add_new_candle print_df candle s))))
           \<le> max_candles s
       \<and> candle_list (outcome_state (add_new_candle print_df candle s)) =
           drop (length (candle_list s) + 1 - nat (max_candles s)) (candle_list s @ [candle])
       \<and> (int (length (candle_list s)) = max_candles s \<longrightarrow>
            candle_list (outcome_state (add_new_candle print_df candle s)) =
              tl (candle_list s) @ [candle])
       \<and> (int (length (candle_list s)) \<le> max_candles s \<longrightarrow>
            int (length (candle_list (outcome_state (process_all print_df ds s))))
              \<le> max_candles s)
       \<and> (length (candle_list u) \<le> 500 \<longrightarrow>
            length (candle_list (outcome_state (start_loop print_df ds u))) \<le> 500)"
proof -
  have A: "candle_list (outcome_state (add_new_candle print_df candle s)) =
           drop (length (candle_list s) + 1 - nat (max_candles s)) (candle_list s @ [candle])"
  proof -
    have k: "nat (int (length (candle_list s @ [candle])) + - max_candles s) =
        length (candle_list s) + 1 - nat (max_candles s)"
      using assms by simp
    have z: "length (candle_list s) + 1 - nat (max_candles s) = 0"
      if "\<not> max_candles s < int (length (candle_list s @ [candle]))"
      using that by simp
    show ?thesis
    proof (cases "max_candles s < int (length (candle_list s @ [candle]))")
      case True
      have "candle_list (outcome_state (add_new_candle print_df candle s)) =
          py_slice_from (- max_candles s) (candle_list s @ [candle])"
        using True by (simp add: candle_list_add_new_candle Let_def)
      also have "\<dots> = drop (nat (int (length (candle_list s @ [candle])) + - max_candles s))
          (candle_list s @ [candle])"
        using assms by (simp add: py_slice_from_def)
      finally show ?thesis by (simp only: k)
    next
      case False
      have "candle_list (outcome_state (add_new_candle print_df candle s)) =
          candle_list s @ [candle]"
        using False by (simp add: candle_list_add_new_candle Let_def)
      with z [OF False] show ?thesis by simp
    qed
  qed
  have B: "int (length (candle_list (outcome_state (add_new_candle print_df candle s))))
           \<le> max_candles s"
    using assms by (auto simp: candle_list_add_new_candle Let_def py_slice_from_def)
  have C: "candle_list (outcome_state (add_new_candle print_df candle s)) =
              tl (candle_list s) @ [candle]"
    if "int (length (candle_list s)) = max_candles s"
  proof -
    from that assms have ne: "candle_list s \<noteq> []" by auto
    from that have one: "length (candle_list s) + 1 - nat (max_candles s) = 1" by simp
    from A have "candle_list (outcome_state (add_new_candle print_df candle s)) =
        drop 1 (candle_list s @ [candle])"
      by (simp only: one)
    with ne show ?thesis by (cases "candle_list s") simp_all
  qed
  have D: "int (length (candle_list (outcome_state (process_all print_df ds s)))) \<le> max_candles s"
    if "int (length (candle_list s)) \<le> max_candles s"
    using assms that by (rule process_all_length)
  have E: "length (candle_list (outcome_state (start_loop print_df ds u))) \<le> 500"
    if "length (candle_list u) \<le> 500"
    using that by (rule start_loop_length)
  from A B C D E show ?thesis by blast
qed

theorem capacity_counterexample:
  "length (candle_list (outcome_state
      (add_new_candle (\<lambda>rows. None) (bar ''100'') (live_updater 0 [])))) = 1
   \<and> length (candle_list (outcome_state
      (process_all (\<lambda>rows. None) [tick ''100'', tick ''101''] (live_updater 0 [])))) = 2
   \<and> bars_lookback (candle_updater 1 [bar ''100'']) = 1
   \<and> length (candle_list (outcome_state
      (start_loop (\<lambda>rows. None) [tick ''101''] (candle_updater 1 [bar ''100''])))) = 2"
  by (simp add: example_defs process_data_def add_new_candle_def py_slice_from_def
        start_step_def process_candle_data_def)

theorem add_new_candle_capacity_witness:
  "candle_list (outcome_state (add_new_candle (\<lambda>rows. None) (bar ''103'')
       (live_updater 3 [bar ''100'', bar ''101'', bar ''102'']))) =
     [bar ''101'', bar ''102'', bar ''103'']
   \<and> int (length (candle_list (outcome_state
        (process_all (\<lambda>rows. None) [tick ''102'', tick ''103'', tick ''104'']
           (live_updater 3 [bar ''100'', bar ''101'', bar ''102'']))))) \<le> 3
   \<and> length (candle_list (outcome_state
        (start_loop (\<lambda>rows. None) [tick ''102'', tick ''103'', tick ''104'']
           (candle_updater 3 [bar ''100'', bar ''101'', bar ''102''])))) \<le> 500"
  using add_new_candle_capacity [of "live_updater 3 [bar ''100'', bar ''101'', bar ''102'']"
      "\<lambda>rows. None" "bar ''103''" "[tick ''102'', tick ''103'', tick ''104'']"
      "candle_updater 3 [bar ''100'', bar ''101'', bar ''102'']"]
  by (simp add: example_defs)




text \<open>
  C6 (as amended). When the delivery queue is full, the message handler drops the incoming
  event without blocking: it returns, the queue is left as it was. No counter records
  the drop: the metrics become what they become for a message that is enqueued
  (\<open>message_count\<close> one more, \<open>last_message_at\<close> set), \<open>error_count\<close> is unchanged, and
  \<open>ConnectionMetrics\<close> has no \<open>messagesDropped\<close> field.
\<close>

theorem on_message_queue_full:
  assumes "json_loads message = Inr (JObj kvs)"
    and "map_of kvs ''type'' = Some (JStr ''message'')"
    and "map_of kvs ''data'' = Some (JObj candlestick_data)"
    and "1000 \<le> length (data_queue s)"
    and "data_queue s' = []" and "metrics s' = metrics s"
  shows "data_queue (on_message json_loads now stamp message s) = data_queue s
       \<and> metrics (on_message json_loads now stamp message s) =
           (metrics s)\<lparr>message_count := message_count (metrics s) + 1, last_message_at := now\<rparr>
       \<and> metrics (on_message json_loads now stamp message s) =
           metrics (on_message json_loads now stamp message s')
       \<and> data_queue (on_message json_loads now stamp message s') =
           [JObj (dict_set ''time_received'' (JStr stamp) candlestick_data)]"
  using assms by (simp add: on_message_def put_nowait_def Let_def)

theorem dropped_counter_counterexample:
  "data_queue (on_message example_loads 7 ''2025-01-07T00:00:00'' ''candle'' (socket 1000))
     = data_queue (socket 1000)
   \<and> metrics (on_message example_loads 7 ''2025-01-07T00:00:00'' ''candle'' (socket 1000))
     = metrics (on_message example_loads 7 ''2025-01-07T00:00:00'' ''candle'' (socket 999))
   \<and> length (data_queue
         (on_message example_loads 7 ''2025-01-07T00:00:00'' ''candle'' (socket 999))) = 1000
   \<and> error_count (metrics
         (on_message example_loads 7 ''2025-01-07T00:00:00'' ''candle'' (socket 1000))) = 0"
  by (simp add: on_message_def put_nowait_def example_loads_def candle_message_def socket_def
        Let_def)

theorem on_message_queue_full_witness:
  "data_queue (on_message example_loads 7 ''2025-01-07T00:00:00'' ''candle'' (socket 1000))
     = data_queue (socket 1000)
   \<and> metrics (on_message example_loads 7 ''2025-01-07T00:00:00'' ''candle'' (socket 1000)) =
       \<lparr>message_count = 1, error_count = 0, connected_at = 0, last_message_at = 7\<rparr>
   \<and> length (data_queue
        (on_message example_loads 7 ''2025-01-07T00:00:00'' ''candle'' (socket 0))) = 1"
  using on_message_queue_full [of example_loads "''candle''"
      "[(''type'', JStr ''message''), (''topic'', JStr ''/market/candles:BTC-USDT_1min''),
        (''subject'', JStr ''trade.candles.update''),
        (''data'', JObj [(''symbol'', JStr ''BTC-USDT''),
                         (''candles'', JArr (map JStr (bar ''103''))),
                         (''time'', JNum ''1736208000000'')])]"
      "[(''symbol'', JStr ''BTC-USDT''), (''candles'', JArr (map JStr (bar ''103''))),
        (''time'', JNum ''1736208000000'')]"
      "socket 1000" "socket 0" 7 "''2025-01-07T00:00:00''"]
  by (simp add: example_loads_def candle_message_def socket_def)

text \<open>
  C7. A message that is not JSON: the handler of the package catches the
  \<open>JSONDecodeError\<close> in a clause of its own, which logs and returns; the state is
  unchanged, so nothing is enqueued, but \<open>error_count\<close> is not incremented either. The
  handler of \<open>development/ws_simple_update.py\<close> counts it.
\<close>

theorem malformed_message_not_counted:
  "on_message example_loads now stamp ''{not json'' s = s
   \<and> error_count (metrics (on_message example_loads now stamp ''{not json'' s))
       = error_count (metrics s)
   \<and> data_queue (simple_on_message example_loads stamp ''{not json'' s) = data_queue s
   \<and> error_count (metrics (simple_on_message example_loads stamp ''{not json'' s))
       = error_count (metrics s) + 1"
  by (simp add: on_message_def simple_on_message_def example_loads_def)

text \<open>
  C8 (as amended). A timeframe that ends in none of \<open>min\<close>, \<open>hour\<close>, \<open>day\<close> makes the
  construction of \<open>CandleUpdate\<close> raise ValueError before anything is fetched, whatever
  the network would answer. The lookback is not checked: for a timeframe made of decimal
  digits, at most the 4300 that \<open>int\<close> accepts, and one of the three units, the start-time
  computation never raises ValueError, whatever the lookback, positive or not; it fails
  only with OverflowError, when a \<open>timedelta\<close> or the start time leaves Python's range.
\<close>

theorem timeframe_checked_at_construction:
  assumes "\<not> endswith tf ''min''" and "\<not> endswith tf ''hour''" and "\<not> endswith tf ''day''"
    and "list_all is_digit ds" and "ds \<noteq> []" and "length ds \<le> int_max_str_digits"
    and "unit \<in> {''min'', ''hour'', ''day''}"
  shows "candle_update_init tf lookback now now_end epoch responses = Some (Inl ValueError)
       \<and> ((\<exists>t. calculate_start_time_with_bars (ds @ unit) lookback' now' = Inr t)
          \<or> calculate_start_time_with_bars (ds @ unit) lookback' now' = Inl OverflowError)"
proof -
  have "calculate_start_time_with_bars tf lookback now = Inl ValueError"
    using assms(1-3) by (simp add: calculate_start_time_with_bars_def timeframe_delta_unsupported)
  then have "candle_update_init tf lookback now now_end epoch responses = Some (Inl ValueError)"
    by (simp add: candle_update_init_def)
  with calculate_start_time_supported [OF assms(4-7)] show ?thesis by blast
qed

text \<open>A lookback of zero, and a negative one: the updater is constructed.\<close>

theorem lookback_counterexample:
  "candle_update_init ''1min'' 0 example_now example_now utc_epoch [Inr []] =
     Some (Inr ((candle_updater 0 [])))
   \<and> candle_update_init ''1min'' (- 5) example_now example_now utc_epoch [Inr []] =
     Some (Inr ((candle_updater (- 5) [])))
   \<and> calculate_start_time_with_bars ''1min'' (- 5) example_now = Inr (example_now + 300000000)"
  by (simp add: candle_update_init_def calculate_start_time_with_bars_def timeframe_delta_def
        endswith_def py_drop_last_def py_int_eval timedelta_def datetime_sub_def us_per_day_def
        example_now_def utc_epoch_def fetch_all_candles_def sort_and_filter_def
        candle_updater_def)

theorem timeframe_checked_at_construction_witness:
  "candle_update_init ''1week'' 100 example_now example_now utc_epoch [] = Some (Inl ValueError)
   \<and> calculate_start_time_with_bars ''15min'' 100 example_now = Inr (example_now - 90000000000)"
  using timeframe_checked_at_construction [of "''1week''" "''15''" "''min''"
      100 example_now example_now utc_epoch "[]" 100 example_now]
  by (simp add: endswith_def is_digit_def calculate_start_time_with_bars_def
        timeframe_delta_def py_drop_last_def py_int_eval timedelta_def datetime_sub_def
        us_per_day_def example_now_def)

text \<open>
  C9. In \<open>CandleUpdate.start\<close>, when the backfilled candle list is empty, a valid event
  makes the test \<open>candle[0] != self.candle_list[-1][0]\<close> raise IndexError; whatever
  arrives, the loop leaves the series empty. \<open>LiveDataUpdater.process_data\<close> tests for
  the empty list first and goes on to \<open>add_new_candle\<close>, which appends the candle (the
  series is then that one candle, for any capacity that is not negative).
\<close>

theorem empty_series_never_extended:
  assumes "candle_list u = []" and "candle_list s = []"
    and "candles d = Some candle" and "length candle = 7"
  shows "raised (start_step print_df (Some d) u) = Some IndexError
       \<and> candle_list (outcome_state (start_step print_df (Some d) u)) = []
       \<and> candle_list (outcome_state (start print_df ws_start ds u)) = []
       \<and> process_data print_df (Some d) s =
           add_new_candle print_df candle
             (s\<lparr>open := Some (candle ! 1), close := Some (candle ! 2),
                high := Some (candle ! 3), low := Some (candle ! 4)\<rparr>)
       \<and> (0 \<le> max_candles s \<longrightarrow>
            candle_list (outcome_state (process_data print_df (Some d) s)) = [candle])"
proof -
  have ne: "candle \<noteq> []" using assms(4) by auto
  have A: "raised (start_step print_df (Some d) u) = Some IndexError"
    using assms(1,3,4) ne
    by (simp add: start_step_def process_candle_data_def candle_fields)
  have B: "candle_list (outcome_state (start_step print_df (Some d) u)) = []"
    using assms(1) by (rule start_step_empty)
  have C: "candle_list (outcome_state (start print_df ws_start ds u)) = []"
    using assms(1) by (cases ws_start) (simp_all add: start_def start_loop_empty)
  have D: "process_data print_df (Some d) s =
     add_new_candle print_df candle
       (s\<lparr>open := Some (candle ! 1), close := Some (candle ! 2),
              high := Some (candle ! 3), low := Some (candle ! 4)\<rparr>)"
    using assms(2-4) by (simp add: process_data_def live_fields)
  have E: "candle_list (outcome_state (process_data print_df (Some d) s)) = [candle]"
    if "0 \<le> max_candles s"
    unfolding D using assms(2) that
    by (auto simp: candle_list_add_new_candle py_slice_from_def Let_def)
  from A B C D E show ?thesis by blast
qed

theorem empty_series_never_extended_witness:
  "raised (start_step (\<lambda>rows. None) (tick ''103'') (candle_updater 100 [])) = Some IndexError
   \<and> candle_list (outcome_state
        (start (\<lambda>rows. None) None [None, tick ''103'', tick ''104''] (candle_updater 100 []))) = []
   \<and> candle_list (outcome_state
        (process_data (\<lambda>rows. None) (tick ''103'') (live_updater 500 []))) = [bar ''103'']"
proof -
  have u: "candle_list (candle_updater 100 []) = []"
    by (simp add: candle_updater_def)
  have s: "candle_list (live_updater 500 []) = []" "0 \<le> max_candles (live_updater 500 [])"
    by (simp_all add: live_updater_def)
  have d: "candles (the (tick ''103'')) = Some (bar ''103'')" "length (bar ''103'') = 7"
    "Some (the (tick ''103'')) = tick ''103''"
    by (simp_all add: tick_def bar_def)
  from empty_series_never_extended [OF u s(1) d(1,2), where print_df = "\<lambda>rows. None"
      and ws_start = None and ds = "[None, tick ''103'', tick ''104'']", unfolded d(3)] s(2)
  show ?thesis by blast
qed

text \<open>
  C10 (as amended). \<open>fetch_all_candles\<close> compares the timestamp field as a string: the
  list it returns is sorted in non-decreasing lexicographic order of the timestamp
  strings. When all returned timestamps are decimal digit strings of one length, the list
  is also in non-decreasing order of the openTimes. The converse fails: the timestamps
  \<open>1\<close> and \<open>20\<close> have different lengths and come out in numeric order.
\<close>

theorem fetch_all_candles_sorted_as_strings:
  assumes "fetch_all_candles start_ts end_ts responses = Some (Inr result)"
  shows "sorted (map (\<lambda>c. c ! 0) result)
       \<and> ((\<forall>c\<in>set result. list_all is_digit (c ! 0) \<and> length (c ! 0) = n) \<longrightarrow>
            sorted (map (\<lambda>c. the (py_int (c ! 0))) result))"
proof -
  note r = fetch_all_candles_result [OF assms]
  have s: "sorted (map (\<lambda>c. c ! 0) result)"
    unfolding r by (intro sorted_filter sorted_sort_key)
  have "sorted (map (\<lambda>c. the (py_int (c ! 0))) result)"
    if d: "\<forall>c\<in>set result. list_all is_digit (c ! 0) \<and> length (c ! 0) = n"
  proof -
    have "the (py_int (x ! 0)) \<le> the (py_int (y ! 0))"
      if x: "x \<in> set result" and y: "y \<in> set result" and le: "x ! 0 \<le> y ! 0" for x y
    proof (cases "x ! 0 = y ! 0")
      case True
      then show ?thesis by simp
    next
      case False
      from d x y have dx: "list_all is_digit (x ! 0)" and dy: "list_all is_digit (y ! 0)"
        and l: "length (x ! 0) = length (y ! 0)"
        by simp_all
      from False l have ne: "x ! 0 \<noteq> []" "y ! 0 \<noteq> []" by auto
      show ?thesis
      proof (cases "length (x ! 0) > int_max_str_digits")
        case True
        with l dx dy ne have "py_int (x ! 0) = None" "py_int (y ! 0) = None"
          by (simp_all add: py_int_digits)
        then show ?thesis by simp
      next
        case False
        with l dx dy ne
        have "py_int (x ! 0) = Some (foldl (\<lambda>a c. a * 10 + digit_val c) 0 (x ! 0))"
          "py_int (y ! 0) = Some (foldl (\<lambda>a c. a * 10 + digit_val c) 0 (y ! 0))"
          by (simp_all add: py_int_digits)
        with digits_le_imp_value_le [OF l dx dy le] show ?thesis by simp
      qed
    qed
    with s show ?thesis
      by (simp add: sorted_wrt_map) (erule sorted_wrt_mono_rel [rotated], blast)
  qed
  with s show ?thesis by blast
qed

theorem string_order_counterexample:
  "fetch_all_candles 0 100 [Inr [bar ''20'', bar ''1''], Inr []] =
     Some (Inr [bar ''1'', bar ''20''])
   \<and> sorted (map (\<lambda>c. the (py_int (c ! 0))) [bar ''1'', bar ''20''])
   \<and> length (bar ''1'' ! 0) \<noteq> length (bar ''20'' ! 0)"
  by (simp add: fetch_all_candles_def sort_and_filter_def in_range_def
        py_int_eval example_defs)

theorem fetch_all_candles_sorted_as_strings_witness:
  "fetch_all_candles 100 300 [Inr [bar ''220'', bar ''160''], Inr [bar ''100'']] =
     Some (Inr [bar ''100'', bar ''160'', bar ''220''])
   \<and> sorted (map (\<lambda>c. c ! 0) [bar ''100'', bar ''160'', bar ''220''])
   \<and> sorted (map (\<lambda>c. the (py_int (c ! 0))) [bar ''100'', bar ''160'', bar ''220''])"
  using fetch_all_candles_sorted_as_strings [OF fetch_same_length, of 3] fetch_same_length
  by (simp add: example_defs is_digit_def)

end
